theory Spec2Isabelle
  imports Main "HOL-Library.Multiset"
begin

section \<open>JavaScript values and sets\<close>

text \<open>
  A JavaScript slot that holds either an object or one of the two empty values.
  \<open>lib/ModuleGraph.js\<close> distinguishes them: a fresh \<open>ModuleGraphDependency\<close> has
  \<open>connection = undefined\<close>, a fresh \<open>ModuleGraphModule\<close> has \<open>issuer = null\<close>.
\<close>

datatype 'a js = Undefined | Null | Obj 'a

text \<open>
  A JavaScript \<open>Set\<close> iterates in insertion order and holds no element twice; it is a list
  here. \<open>set_add\<close> is \<open>Set.prototype.add\<close>, \<open>set_delete\<close> is
  \<open>Set.prototype.delete\<close>.
\<close>

definition set_add :: "'a \<Rightarrow> 'a list \<Rightarrow> 'a list" where
  "set_add x xs = (if x \<in> set xs then xs else xs @ [x])"

definition set_delete :: "'a \<Rightarrow> 'a list \<Rightarrow> 'a list" where
  "set_delete x xs = removeAll x xs"

section \<open>lib/ModuleGraph.js: the data model\<close>

text \<open>
  Modules, dependencies, blocks and the keys of \<open>getMeta\<close> are opaque identities that
  are only compared by reference; a connection object is a reference into the store
  \<open>connections\<close> of the graph, because the same object sits in two sets and is mutated
  in place.
\<close>

type_synonym Module = nat
type_synonym Dependency = nat
type_synonym DependenciesBlock = nat
type_synonym thing = nat
type_synonym conn_ref = nat

text \<open>
  Modelled from the spec: \<open>lib/ModuleGraphConnection.js\<close> is not among the sources. A
  connection is the record of an origin module (or null), the dependency that produced it
  (or null), the resolved target module and an ordered list of explanations that only grows.
  \<open>resolvedOriginModule\<close> and \<open>resolvedModule\<close> are the two further fields that
  \<open>getResolvedOrigin\<close> and \<open>getResolvedModule\<close> read; they hold the origin and the
  module the connection was built with and no function of \<open>ModuleGraph.js\<close> writes them.
\<close>

record ModuleGraphConnection =
  originModule :: "Module js"
  resolvedOriginModule :: "Module js"
  dependency :: "Dependency js"
  resolvedModule :: Module
  module :: Module
  explanations :: "string list"

definition new_ModuleGraphConnection ::
  "Module js \<Rightarrow> Dependency js \<Rightarrow> Module \<Rightarrow> string list \<Rightarrow> ModuleGraphConnection" where
  "new_ModuleGraphConnection om dep m expl =
     \<lparr> originModule = om, resolvedOriginModule = om, dependency = dep,
       resolvedModule = m, module = m, explanations = expl \<rparr>"

text \<open>\<open>false | true | SortableSet<string> | null\<close>, the type of \<open>usedExports\<close>.\<close>

datatype UsedExports = UsedFalse | UsedTrue | UsedNames "string list" | UsedNull

record ModuleGraphModule =
  incomingConnections :: "conn_ref list"
  outgoingConnections :: "conn_ref list"
  issuer :: "Module js"
  optimizationBailout :: "string list"
  usedExports :: UsedExports

definition new_ModuleGraphModule :: ModuleGraphModule where
  "new_ModuleGraphModule =
     \<lparr> incomingConnections = [], outgoingConnections = [], issuer = Null,
       optimizationBailout = [], usedExports = UsedNull \<rparr>"

record ModuleGraphDependency =
  connection :: "conn_ref js"
  parentModule :: "Module js"
  parentBlock :: "DependenciesBlock js"

definition new_ModuleGraphDependency :: ModuleGraphDependency where
  "new_ModuleGraphDependency =
     \<lparr> connection = Undefined, parentModule = Undefined, parentBlock = Undefined \<rparr>"

text \<open>
  The record that \<open>getMeta\<close> hands out is an initially empty property bag. One record
  exists per key and it is never replaced, so the key names the record; the model keeps
  its properties.
\<close>

type_synonym meta = "(string \<times> string) list"

text \<open>
  The graph: the three maps that the code uses (\<open>_originMap\<close> is never read or
  written), and the store of the connection objects with the next free reference.
\<close>

record ModuleGraph =
  dependencyMap :: "Dependency \<rightharpoonup> ModuleGraphDependency"
  moduleMap :: "Module \<rightharpoonup> ModuleGraphModule"
  metaMap :: "thing \<rightharpoonup> meta"
  connections :: "conn_ref \<Rightarrow> ModuleGraphConnection"
  next_connection :: conn_ref

definition new_ModuleGraph :: ModuleGraph where
  "new_ModuleGraph =
     \<lparr> dependencyMap = Map.empty, moduleMap = Map.empty, metaMap = Map.empty,
       connections = (\<lambda>_. new_ModuleGraphConnection Null Null 0 []),
       next_connection = 0 \<rparr>"

datatype error = TypeError

section \<open>lib/ModuleGraph.js: the operations\<close>

text \<open>
  \<open>_getModuleGraphModule\<close> and \<open>_getModuleGraphDependency\<close>: look the record up and
  insert a fresh one when the key is new. The record object that they return lives in the
  map, so a caller that mutates it writes it back with \<open>set_mgm\<close> or \<open>set_mgd\<close>.
\<close>

definition getModuleGraphModule :: "Module \<Rightarrow> ModuleGraph \<Rightarrow> ModuleGraphModule \<times> ModuleGraph" where
  "getModuleGraphModule m g =
     (case moduleMap g m of
        Some mgm \<Rightarrow> (mgm, g)
      | None \<Rightarrow> (new_ModuleGraphModule,
                 g\<lparr>moduleMap := (moduleMap g)(m \<mapsto> new_ModuleGraphModule)\<rparr>))"

definition getModuleGraphDependency ::
  "Dependency \<Rightarrow> ModuleGraph \<Rightarrow> ModuleGraphDependency \<times> ModuleGraph" where
  "getModuleGraphDependency d g =
     (case dependencyMap g d of
        Some mgd \<Rightarrow> (mgd, g)
      | None \<Rightarrow> (new_ModuleGraphDependency,
                 g\<lparr>dependencyMap := (dependencyMap g)(d \<mapsto> new_ModuleGraphDependency)\<rparr>))"

definition set_mgm :: "Module \<Rightarrow> ModuleGraphModule \<Rightarrow> ModuleGraph \<Rightarrow> ModuleGraph" where
  "set_mgm m mgm g = g\<lparr>moduleMap := (moduleMap g)(m \<mapsto> mgm)\<rparr>"

definition set_mgd :: "Dependency \<Rightarrow> ModuleGraphDependency \<Rightarrow> ModuleGraph \<Rightarrow> ModuleGraph" where
  "set_mgd d mgd g = g\<lparr>dependencyMap := (dependencyMap g)(d \<mapsto> mgd)\<rparr>"

definition set_connection :: "conn_ref \<Rightarrow> ModuleGraphConnection \<Rightarrow> ModuleGraph \<Rightarrow> ModuleGraph" where
  "set_connection c v g = g\<lparr>connections := (connections g)(c := v)\<rparr>"

text \<open>\<open>new ModuleGraphConnection(...)\<close>: the object gets the next free reference.\<close>

definition alloc_connection :: "ModuleGraphConnection \<Rightarrow> ModuleGraph \<Rightarrow> conn_ref \<times> ModuleGraph" where
  "alloc_connection v g =
     (next_connection g,
      g\<lparr>connections := (connections g)(next_connection g := v),
        next_connection := Suc (next_connection g)\<rparr>)"

definition setParents ::
  "Dependency \<Rightarrow> DependenciesBlock js \<Rightarrow> Module js \<Rightarrow> ModuleGraph \<Rightarrow> ModuleGraph" where
  "setParents d block m g =
     (let (mgd, g1) = getModuleGraphDependency d g
      in set_mgd d (mgd\<lparr>parentBlock := block, parentModule := m\<rparr>) g1)"

definition getParentModule :: "Dependency \<Rightarrow> ModuleGraph \<Rightarrow> Module js \<times> ModuleGraph" where
  "getParentModule d g = (let (mgd, g1) = getModuleGraphDependency d g in (parentModule mgd, g1))"

definition getParentBlock :: "Dependency \<Rightarrow> ModuleGraph \<Rightarrow> DependenciesBlock js \<times> ModuleGraph" where
  "getParentBlock d g = (let (mgd, g1) = getModuleGraphDependency d g in (parentBlock mgd, g1))"

text \<open>
  \<open>setResolvedModule\<close>. Its three parameters are declared \<open>Module\<close>, \<open>Dependency\<close>,
  \<open>Module\<close>, so none of them is null.
\<close>

definition setResolvedModule :: "Module \<Rightarrow> Dependency \<Rightarrow> Module \<Rightarrow> ModuleGraph \<Rightarrow> ModuleGraph" where
  "setResolvedModule om d m g =
     (let (c, g1) = alloc_connection (new_ModuleGraphConnection (Obj om) (Obj d) m []) g;
          (mgd, g2) = getModuleGraphDependency d g1;
          g3 = set_mgd d (mgd\<lparr>connection := Obj c\<rparr>) g2;
          (mgm, g4) = getModuleGraphModule m g3;
          g5 = set_mgm m (mgm\<lparr>incomingConnections := set_add c (incomingConnections mgm)\<rparr>) g4;
          (omgm, g6) = getModuleGraphModule om g5
      in set_mgm om (omgm\<lparr>outgoingConnections := set_add c (outgoingConnections omgm)\<rparr>) g6)"

text \<open>
  \<open>updateModule\<close>: \<open>connection.module\<close> on an undefined connection throws a
  \<open>TypeError\<close>, after \<open>_getModuleGraphDependency\<close> has run.
\<close>

definition updateModule :: "Dependency \<Rightarrow> Module \<Rightarrow> ModuleGraph \<Rightarrow> (error + unit) \<times> ModuleGraph" where
  "updateModule d m g =
     (let (mgd, g1) = getModuleGraphDependency d g
      in case connection mgd of
           Obj c \<Rightarrow>
             if module (connections g1 c) = m then (Inr (), g1)
             else
               let (oldMgm, g2) = getModuleGraphModule (module (connections g1 c)) g1;
                   g3 = set_mgm (module (connections g1 c))
                          (oldMgm\<lparr>incomingConnections := set_delete c (incomingConnections oldMgm)\<rparr>) g2;
                   g4 = set_connection c ((connections g3 c)\<lparr>module := m\<rparr>) g3;
                   (newMgm, g5) = getModuleGraphModule m g4
               in (Inr (), set_mgm m
                     (newMgm\<lparr>incomingConnections := set_add c (incomingConnections newMgm)\<rparr>) g5)
         | _ \<Rightarrow> (Inl TypeError, g1))"

text \<open>
  \<open>addExplanation\<close>. Modelled from the spec: the connection's own \<open>addExplanation\<close>
  method (in \<open>ModuleGraphConnection.js\<close>) appends the string to the explanations.
\<close>

definition addExplanation :: "Dependency \<Rightarrow> string \<Rightarrow> ModuleGraph \<Rightarrow> (error + unit) \<times> ModuleGraph" where
  "addExplanation d explanation g =
     (let (mgd, g1) = getModuleGraphDependency d g
      in case connection mgd of
           Obj c \<Rightarrow>
             (Inr (), set_connection c
                ((connections g1 c)\<lparr>explanations := explanations (connections g1 c) @ [explanation]\<rparr>) g1)
         | _ \<Rightarrow> (Inl TypeError, g1))"

text \<open>
  \<open>replaceModule\<close>. The filter receives the connection object: its identity and its
  current fields. Each loop runs over the elements that the old set has when the loop
  starts: the body deletes only the element it is visiting and adds only to the set of
  the other module. \<open>replaceOutgoing\<close> and \<open>replaceIncoming\<close> are the two loop
  bodies.
\<close>

type_synonym filterConnection = "conn_ref \<Rightarrow> ModuleGraphConnection \<Rightarrow> bool"

text \<open>
  \<open>oldMgm\<close> and \<open>newMgm\<close> are the record objects of the two modules in the map;
  \<open>the_mgm\<close> reads the record of a module there.
\<close>

definition the_mgm :: "ModuleGraph \<Rightarrow> Module \<Rightarrow> ModuleGraphModule" where
  "the_mgm g m = (case moduleMap g m of Some mgm \<Rightarrow> mgm | None \<Rightarrow> new_ModuleGraphModule)"

definition replaceOutgoing ::
  "Module \<Rightarrow> Module \<Rightarrow> filterConnection \<Rightarrow> conn_ref \<Rightarrow> ModuleGraph \<Rightarrow> ModuleGraph" where
  "replaceOutgoing oldModule newModule filterConnection c g =
     (if filterConnection c (connections g c) then
        let g1 = set_connection c ((connections g c)\<lparr>originModule := Obj newModule\<rparr>) g;
            g2 = set_mgm newModule ((the_mgm g1 newModule)
                   \<lparr>outgoingConnections := set_add c (outgoingConnections (the_mgm g1 newModule))\<rparr>) g1
        in set_mgm oldModule ((the_mgm g2 oldModule)
             \<lparr>outgoingConnections := set_delete c (outgoingConnections (the_mgm g2 oldModule))\<rparr>) g2
      else g)"

definition replaceIncoming ::
  "Module \<Rightarrow> Module \<Rightarrow> filterConnection \<Rightarrow> conn_ref \<Rightarrow> ModuleGraph \<Rightarrow> ModuleGraph" where
  "replaceIncoming oldModule newModule filterConnection c g =
     (if filterConnection c (connections g c) then
        let g1 = set_connection c ((connections g c)\<lparr>module := newModule\<rparr>) g;
            g2 = set_mgm newModule ((the_mgm g1 newModule)
                   \<lparr>incomingConnections := set_add c (incomingConnections (the_mgm g1 newModule))\<rparr>) g1
        in set_mgm oldModule ((the_mgm g2 oldModule)
             \<lparr>incomingConnections := set_delete c (incomingConnections (the_mgm g2 oldModule))\<rparr>) g2
      else g)"

text \<open>
  The first loop of \<open>replaceModule\<close> (over the outgoing connections of the old
  module), after the two records have been fetched; then the whole function, whose second
  loop runs over the incoming connections of the old module in the graph that the first
  loop has left.
\<close>

definition replaceModule_outgoing ::
  "Module \<Rightarrow> Module \<Rightarrow> filterConnection \<Rightarrow> ModuleGraph \<Rightarrow> ModuleGraph" where
  "replaceModule_outgoing oldModule newModule filterConnection g =
     (let (oldMgm, g1) = getModuleGraphModule oldModule g;
          (newMgm, g2) = getModuleGraphModule newModule g1
      in fold (replaceOutgoing oldModule newModule filterConnection)
           (outgoingConnections oldMgm) g2)"

definition replaceModule :: "Module \<Rightarrow> Module \<Rightarrow> filterConnection \<Rightarrow> ModuleGraph \<Rightarrow> ModuleGraph" where
  "replaceModule oldModule newModule filterConnection g =
     (if oldModule = newModule then g
      else
        let g3 = replaceModule_outgoing oldModule newModule filterConnection g
        in fold (replaceIncoming oldModule newModule filterConnection)
             (incomingConnections (the_mgm g3 oldModule)) g3)"

definition addExtraReason :: "Module \<Rightarrow> string \<Rightarrow> ModuleGraph \<Rightarrow> ModuleGraph" where
  "addExtraReason m explanation g =
     (let (mgm, g1) = getModuleGraphModule m g;
          (c, g2) = alloc_connection (new_ModuleGraphConnection Null Null m [explanation]) g1
      in set_mgm m (mgm\<lparr>incomingConnections := set_add c (incomingConnections mgm)\<rparr>) g2)"

text \<open>
  The four lookups into the dependency's connection test \<open>connection !== undefined\<close>
  and then read a field of it; on the value null, which no function of the graph stores
  there, the read would throw.
\<close>

definition getResolvedModule :: "Dependency \<Rightarrow> ModuleGraph \<Rightarrow> (error + Module js) \<times> ModuleGraph" where
  "getResolvedModule d g =
     (let (mgd, g1) = getModuleGraphDependency d g
      in (case connection mgd of
            Undefined \<Rightarrow> Inr Null
          | Null \<Rightarrow> Inl TypeError
          | Obj c \<Rightarrow> Inr (Obj (resolvedModule (connections g1 c))), g1))"

definition getConnection :: "Dependency \<Rightarrow> ModuleGraph \<Rightarrow> conn_ref js \<times> ModuleGraph" where
  "getConnection d g = (let (mgd, g1) = getModuleGraphDependency d g in (connection mgd, g1))"

definition getModule :: "Dependency \<Rightarrow> ModuleGraph \<Rightarrow> (error + Module js) \<times> ModuleGraph" where
  "getModule d g =
     (let (mgd, g1) = getModuleGraphDependency d g
      in (case connection mgd of
            Undefined \<Rightarrow> Inr Null
          | Null \<Rightarrow> Inl TypeError
          | Obj c \<Rightarrow> Inr (Obj (module (connections g1 c))), g1))"

definition getOrigin :: "Dependency \<Rightarrow> ModuleGraph \<Rightarrow> (error + Module js) \<times> ModuleGraph" where
  "getOrigin d g =
     (let (mgd, g1) = getModuleGraphDependency d g
      in (case connection mgd of
            Undefined \<Rightarrow> Inr Null
          | Null \<Rightarrow> Inl TypeError
          | Obj c \<Rightarrow> Inr (originModule (connections g1 c)), g1))"

definition getResolvedOrigin :: "Dependency \<Rightarrow> ModuleGraph \<Rightarrow> (error + Module js) \<times> ModuleGraph" where
  "getResolvedOrigin d g =
     (let (mgd, g1) = getModuleGraphDependency d g
      in (case connection mgd of
            Undefined \<Rightarrow> Inr Null
          | Null \<Rightarrow> Inl TypeError
          | Obj c \<Rightarrow> Inr (resolvedOriginModule (connections g1 c)), g1))"

definition getIncomingConnections :: "Module \<Rightarrow> ModuleGraph \<Rightarrow> conn_ref list \<times> ModuleGraph" where
  "getIncomingConnections m g =
     (let (mgm, g1) = getModuleGraphModule m g in (incomingConnections mgm, g1))"

definition getOutgoingConnection :: "Module \<Rightarrow> ModuleGraph \<Rightarrow> conn_ref list \<times> ModuleGraph" where
  "getOutgoingConnection m g =
     (let (mgm, g1) = getModuleGraphModule m g in (outgoingConnections mgm, g1))"

definition getIssuer :: "Module \<Rightarrow> ModuleGraph \<Rightarrow> Module js \<times> ModuleGraph" where
  "getIssuer m g = (let (mgm, g1) = getModuleGraphModule m g in (issuer mgm, g1))"

definition setIssuer :: "Module \<Rightarrow> Module js \<Rightarrow> ModuleGraph \<Rightarrow> ModuleGraph" where
  "setIssuer m i g = (let (mgm, g1) = getModuleGraphModule m g in set_mgm m (mgm\<lparr>issuer := i\<rparr>) g1)"

definition getOptimizationBailout :: "Module \<Rightarrow> ModuleGraph \<Rightarrow> string list \<times> ModuleGraph" where
  "getOptimizationBailout m g =
     (let (mgm, g1) = getModuleGraphModule m g in (optimizationBailout mgm, g1))"

definition getUsedExports :: "Module \<Rightarrow> ModuleGraph \<Rightarrow> UsedExports \<times> ModuleGraph" where
  "getUsedExports m g = (let (mgm, g1) = getModuleGraphModule m g in (usedExports mgm, g1))"

definition setUsedExports :: "Module \<Rightarrow> UsedExports \<Rightarrow> ModuleGraph \<Rightarrow> ModuleGraph" where
  "setUsedExports m u g =
     (let (mgm, g1) = getModuleGraphModule m g in set_mgm m (mgm\<lparr>usedExports := u\<rparr>) g1)"

definition getMeta :: "thing \<Rightarrow> ModuleGraph \<Rightarrow> meta \<times> ModuleGraph" where
  "getMeta k g =
     (case metaMap g k of
        Some meta \<Rightarrow> (meta, g)
      | None \<Rightarrow> ([], g\<lparr>metaMap := (metaMap g)(k \<mapsto> [])\<rparr>))"

text \<open>
  The record of a dependency as \<open>_getModuleGraphDependency\<close> would return it, without
  the insertion (\<open>the_mgm\<close> above is the same for a module).
\<close>

definition the_mgd :: "ModuleGraph \<Rightarrow> Dependency \<Rightarrow> ModuleGraphDependency" where
  "the_mgd g d = (case dependencyMap g d of Some mgd \<Rightarrow> mgd | None \<Rightarrow> new_ModuleGraphDependency)"

section \<open>Queries and operations as data\<close>

text \<open>
  The query methods of the graph and their answers, and the methods that change it, as
  values, so that theorems can speak about any query and about any sequence of calls.
\<close>

datatype query =
    GetParentModule Dependency
  | GetParentBlock Dependency
  | GetModule Dependency
  | GetOrigin Dependency
  | GetResolvedModule Dependency
  | GetResolvedOrigin Dependency
  | GetConnection Dependency
  | GetIncomingConnections Module
  | GetOutgoingConnection Module
  | GetIssuer Module
  | GetOptimizationBailout Module
  | GetUsedExports Module
  | GetMeta thing

datatype answer =
    AModule "Module js"
  | AModuleOrThrow "error + Module js"
  | ABlock "DependenciesBlock js"
  | AConnection "conn_ref js"
  | AConnections "conn_ref list"
  | ABailout "string list"
  | AUsedExports UsedExports
  | AMeta meta

fun run_query :: "query \<Rightarrow> ModuleGraph \<Rightarrow> answer \<times> ModuleGraph" where
  "run_query (GetParentModule d) g = map_prod AModule id (getParentModule d g)"
| "run_query (GetParentBlock d) g = map_prod ABlock id (getParentBlock d g)"
| "run_query (GetModule d) g = map_prod AModuleOrThrow id (getModule d g)"
| "run_query (GetOrigin d) g = map_prod AModuleOrThrow id (getOrigin d g)"
| "run_query (GetResolvedModule d) g = map_prod AModuleOrThrow id (getResolvedModule d g)"
| "run_query (GetResolvedOrigin d) g = map_prod AModuleOrThrow id (getResolvedOrigin d g)"
| "run_query (GetConnection d) g = map_prod AConnection id (getConnection d g)"
| "run_query (GetIncomingConnections m) g = map_prod AConnections id (getIncomingConnections m g)"
| "run_query (GetOutgoingConnection m) g = map_prod AConnections id (getOutgoingConnection m g)"
| "run_query (GetIssuer m) g = map_prod AModule id (getIssuer m g)"
| "run_query (GetOptimizationBailout m) g = map_prod ABailout id (getOptimizationBailout m g)"
| "run_query (GetUsedExports m) g = map_prod AUsedExports id (getUsedExports m g)"
| "run_query (GetMeta k) g = map_prod AMeta id (getMeta k g)"

datatype operation =
    SetParents Dependency "DependenciesBlock js" "Module js"
  | SetResolvedModule Module Dependency Module
  | UpdateModule Dependency Module
  | AddExplanation Dependency string
  | ReplaceModule Module Module filterConnection
  | AddExtraReason Module string
  | SetIssuer Module "Module js"
  | SetUsedExports Module UsedExports
  | Query query

text \<open>
  The graph after one call. A call that throws leaves the graph as it was when it threw
  (the caller may catch the error and go on).
\<close>

fun apply_operation :: "operation \<Rightarrow> ModuleGraph \<Rightarrow> ModuleGraph" where
  "apply_operation (SetParents d b m) g = setParents d b m g"
| "apply_operation (SetResolvedModule om d m) g = setResolvedModule om d m g"
| "apply_operation (UpdateModule d m) g = snd (updateModule d m g)"
| "apply_operation (AddExplanation d e) g = snd (addExplanation d e g)"
| "apply_operation (ReplaceModule old new f) g = replaceModule old new f g"
| "apply_operation (AddExtraReason m e) g = addExtraReason m e g"
| "apply_operation (SetIssuer m i) g = setIssuer m i g"
| "apply_operation (SetUsedExports m u) g = setUsedExports m u g"
| "apply_operation (Query q) g = snd (run_query q g)"

definition run_operations :: "operation list \<Rightarrow> ModuleGraph \<Rightarrow> ModuleGraph" where
  "run_operations ops g = fold apply_operation ops g"


section \<open>lib/Chunk.js: the data model\<close>

text \<open>
  Chunks and chunk groups are objects that refer to each other, so both live in a store
  and are named by references. A chunk's \<open>id\<close> is a number, a string or null.
\<close>

type_synonym chunk_ref = nat
type_synonym group_ref = nat

datatype id_value = IdNull | IdNumber int | IdString string

text \<open>
  The fields of \<open>Chunk\<close> that the functions below read: \<open>id\<close> (here \<open>id_chunk\<close>)
  and the private set \<open>_groups\<close> (here \<open>groups\<close>), in insertion order.
\<close>

record Chunk =
  id_chunk :: id_value
  groups :: "group_ref list"

text \<open>
  Modelled from the spec: \<open>lib/ChunkGroup.js\<close> is not among the sources. A chunk group
  has an ordered list of member chunks, a set of child groups (\<open>childrenIterable\<close>) and an
  \<open>options\<close> object, whose own keys \<open>Object.keys\<close> lists in order, each with a numeric
  value.
\<close>

record ChunkGroup =
  chunks :: "chunk_ref list"
  children :: "group_ref list"
  options :: "(string \<times> int) list"

record heap =
  chunk_of :: "chunk_ref \<Rightarrow> Chunk"
  group_of :: "group_ref \<Rightarrow> ChunkGroup"

section \<open>lib/Chunk.js: group membership\<close>

definition getNumberOfGroups :: "heap \<Rightarrow> chunk_ref \<Rightarrow> nat" where
  "getNumberOfGroups h this = length (groups (chunk_of h this))"

definition isInGroup :: "heap \<Rightarrow> chunk_ref \<Rightarrow> group_ref \<Rightarrow> bool" where
  "isInGroup h this chunkGroup = (chunkGroup \<in> set (groups (chunk_of h this)))"

definition addGroup :: "chunk_ref \<Rightarrow> group_ref \<Rightarrow> heap \<Rightarrow> bool \<times> heap" where
  "addGroup this chunkGroup h =
     (if chunkGroup \<in> set (groups (chunk_of h this)) then (False, h)
      else (True, h\<lparr>chunk_of := (chunk_of h)
              (this := (chunk_of h this)\<lparr>groups := set_add chunkGroup (groups (chunk_of h this))\<rparr>)\<rparr>))"

definition removeGroup :: "chunk_ref \<Rightarrow> group_ref \<Rightarrow> heap \<Rightarrow> bool \<times> heap" where
  "removeGroup this chunkGroup h =
     (if chunkGroup \<notin> set (groups (chunk_of h this)) then (False, h)
      else (True, h\<lparr>chunk_of := (chunk_of h)
              (this := (chunk_of h this)\<lparr>groups := set_delete chunkGroup (groups (chunk_of h this))\<rparr>)\<rparr>))"

text \<open>
  Modelled from the spec: \<open>ChunkGroup.removeChunk\<close> (in \<open>lib/ChunkGroup.js\<close>) is the
  group-side removal: it takes the chunk out of the group's own chunk list.
\<close>

definition removeChunk :: "group_ref \<Rightarrow> chunk_ref \<Rightarrow> heap \<Rightarrow> heap" where
  "removeChunk chunkGroup chunk h =
     h\<lparr>group_of := (group_of h)
        (chunkGroup := (group_of h chunkGroup)\<lparr>chunks := removeAll chunk (chunks (group_of h chunkGroup))\<rparr>)\<rparr>"

text \<open>\<open>disconnectFromGroups\<close>: one \<open>removeChunk\<close> call for each group of \<open>_groups\<close>.\<close>

definition disconnectFromGroups :: "chunk_ref \<Rightarrow> heap \<Rightarrow> heap" where
  "disconnectFromGroups this h =
     fold (\<lambda>chunkGroup h'. removeChunk chunkGroup this h') (groups (chunk_of h this)) h"

section \<open>lib/Chunk.js: getAllAsyncChunks\<close>

text \<open>\<open>new Set(iterable)\<close>.\<close>

definition new_Set :: "'a list \<Rightarrow> 'a list" where
  "new_Set xs = fold set_add xs []"

text \<open>
  Modelled from the spec: \<open>intersect\<close> (in \<open>lib/util/SetHelpers.js\<close>) is the
  intersection of the given sets; of no set at all it is the empty set.
\<close>

definition intersect :: "'a list list \<Rightarrow> 'a list" where
  "intersect sets =
     (case sets of [] \<Rightarrow> [] | s # ss \<Rightarrow> filter (\<lambda>x. list_all (\<lambda>t. x \<in> set t) ss) s)"

text \<open>
  The second loop of \<open>getAllAsyncChunks\<close>. A \<open>for ... of\<close> over a \<open>Set\<close> also visits
  the elements that the body adds, so the loop is a walk along the growing \<open>queue\<close> with
  the position \<open>i\<close> of the next group to visit. It returns the queue and the collected
  chunks when it leaves; it is partial, because the store may hold an endless chain of
  child groups.
\<close>

partial_function (option) visit_queue ::
  "heap \<Rightarrow> chunk_ref list \<Rightarrow> group_ref list \<Rightarrow> nat \<Rightarrow> chunk_ref list
     \<Rightarrow> (group_ref list \<times> chunk_ref list) option" where
  "visit_queue h initialChunks queue i acc =
     (if i < length queue then
        visit_queue h initialChunks
          (fold set_add (children (group_of h (queue ! i))) queue)
          (Suc i)
          (fold (\<lambda>chunk acc'. if chunk \<in> set initialChunks then acc' else set_add chunk acc')
             (chunks (group_of h (queue ! i))) acc)
      else Some (queue, acc))"

definition initial_queue :: "heap \<Rightarrow> chunk_ref \<Rightarrow> group_ref list" where
  "initial_queue h this =
     fold (\<lambda>chunkGroup queue. fold set_add (children (group_of h chunkGroup)) queue)
       (groups (chunk_of h this)) []"

definition getAllAsyncChunks :: "heap \<Rightarrow> chunk_ref \<Rightarrow> chunk_ref list option" where
  "getAllAsyncChunks h this =
     (let initialChunks =
            intersect (map (\<lambda>g. new_Set (chunks (group_of h g))) (groups (chunk_of h this)))
      in map_option snd (visit_queue h initialChunks (initial_queue h this) 0 []))"

section \<open>lib/Chunk.js: getChildIdsByOrders\<close>













section \<open>Notions used by the theorems\<close>

text \<open>
  What a query sees of a graph: the record of each key, where a key without a record
  stands for the fresh record that the first access creates.
\<close>

definition the_meta :: "ModuleGraph \<Rightarrow> thing \<Rightarrow> meta" where
  "the_meta g k = (case metaMap g k of Some x \<Rightarrow> x | None \<Rightarrow> [])"

definition answer_of ::
  "query \<Rightarrow> (Dependency \<Rightarrow> ModuleGraphDependency) \<Rightarrow> (Module \<Rightarrow> ModuleGraphModule)
     \<Rightarrow> (thing \<Rightarrow> meta) \<Rightarrow> (conn_ref \<Rightarrow> ModuleGraphConnection) \<Rightarrow> answer" where
  "answer_of q D M T C =
     fst (run_query q \<lparr> dependencyMap = (\<lambda>d. Some (D d)), moduleMap = (\<lambda>m. Some (M m)),
                         metaMap = (\<lambda>k. Some (T k)), connections = C, next_connection = 0 \<rparr>)"

text \<open>
  A live connection: the current connection of some dependency, or a connection that
  \<open>addExtraReason\<close> has installed (an allocated connection without a dependency).
\<close>

definition live :: "ModuleGraph \<Rightarrow> conn_ref \<Rightarrow> bool" where
  "live g c \<longleftrightarrow>
     (\<exists>d. fst (getConnection d g) = Obj c)
     \<or> (c < next_connection g \<and> dependency (connections g c) = Null)"

text \<open>
  Edge symmetry of one connection: it is in the incoming set of its module, in the
  outgoing set of its origin module when that is not null, and in the incoming or outgoing
  set of no other module.
\<close>

definition edge_symmetric :: "ModuleGraph \<Rightarrow> conn_ref \<Rightarrow> bool" where
  "edge_symmetric g c \<longleftrightarrow>
     c \<in> set (fst (getIncomingConnections (module (connections g c)) g))
     \<and> (\<forall>om. originModule (connections g c) = Obj om
              \<longrightarrow> c \<in> set (fst (getOutgoingConnection om g)))
     \<and> (\<forall>m. c \<in> set (fst (getIncomingConnections m g)) \<longrightarrow> m = module (connections g c))
     \<and> (\<forall>m. c \<in> set (fst (getOutgoingConnection m g))
              \<longrightarrow> originModule (connections g c) = Obj m)"

text \<open>
  The invariant of the graphs that the operations build: the sets hold no element twice
  and only allocated connections, every member of a set points back at the module of that
  set, every allocated connection is in the sets of its two ends, and the connection of a
  dependency is allocated.
\<close>

definition graph_inv :: "ModuleGraph \<Rightarrow> bool" where
  "graph_inv g \<longleftrightarrow>
     (\<forall>m. distinct (incomingConnections (the_mgm g m))
          \<and> distinct (outgoingConnections (the_mgm g m)))
     \<and> (\<forall>m c. c \<in> set (incomingConnections (the_mgm g m))
            \<longrightarrow> c < next_connection g \<and> module (connections g c) = m)
     \<and> (\<forall>m c. c \<in> set (outgoingConnections (the_mgm g m))
            \<longrightarrow> c < next_connection g \<and> originModule (connections g c) = Obj m)
     \<and> (\<forall>c. c < next_connection g
            \<longrightarrow> c \<in> set (incomingConnections (the_mgm g (module (connections g c))))
                \<and> (\<forall>om. originModule (connections g c) = Obj om
                         \<longrightarrow> c \<in> set (outgoingConnections (the_mgm g om))))
     \<and> (\<forall>d c. connection (the_mgd g d) = Obj c \<longrightarrow> c < next_connection g)"

text \<open>Whether an operation is a \<open>setResolvedModule\<close> call for the dependency.\<close>

fun is_setResolvedModule_of :: "Dependency \<Rightarrow> operation \<Rightarrow> bool" where
  "is_setResolvedModule_of d (SetResolvedModule om d' m) = (d' = d)"
| "is_setResolvedModule_of d _ = False"

text \<open>Whether an operation is a \<open>setUsedExports\<close> call for the module.\<close>

fun is_setUsedExports_of :: "Module \<Rightarrow> operation \<Rightarrow> bool" where
  "is_setUsedExports_of m (SetUsedExports m' u) = (m' = m)"
| "is_setUsedExports_of m _ = False"

text \<open>A set of groups that contains the child groups of each of its members.\<close>

definition children_closed :: "heap \<Rightarrow> group_ref set \<Rightarrow> bool" where
  "children_closed h S \<longleftrightarrow> (\<forall>g \<in> S. set (children (group_of h g)) \<subseteq> S)"







section \<open>Examples\<close>

text \<open>The store in which no chunk is in a group and no group has a chunk, a child or an option.\<close>

definition empty_heap :: heap where
  "empty_heap =
     \<lparr> chunk_of = (\<lambda>_. \<lparr> id_chunk = IdNull, groups = [] \<rparr>),
       group_of = (\<lambda>_. \<lparr> chunks = [], children = [], options = [] \<rparr>) \<rparr>"

definition put_chunk :: "chunk_ref \<Rightarrow> Chunk \<Rightarrow> heap \<Rightarrow> heap" where
  "put_chunk c v h = h\<lparr>chunk_of := (chunk_of h)(c := v)\<rparr>"

definition put_group :: "group_ref \<Rightarrow> ChunkGroup \<Rightarrow> heap \<Rightarrow> heap" where
  "put_group g v h = h\<lparr>group_of := (group_of h)(g := v)\<rparr>"

text \<open>
  The chunk 0 (\<open>X\<close>) is in the groups 1 and 2, both with the chunks 0 and 1 (\<open>Y\<close>); the
  group 1 has the child group 3, with the chunks 1 and 2 (\<open>Z\<close>).
\<close>

definition async_example_heap :: heap where
  "async_example_heap =
     put_chunk 0 \<lparr> id_chunk = IdNumber 0, groups = [1, 2] \<rparr>
       (put_group 1 \<lparr> chunks = [0, 1], children = [3], options = [] \<rparr>
         (put_group 2 \<lparr> chunks = [0, 1], children = [], options = [] \<rparr>
           (put_group 3 \<lparr> chunks = [1, 2], children = [], options = [] \<rparr> empty_heap)))"

text \<open>
  A cycle: the chunk 0 is in the group 1, whose child group is 2, whose child group is 1
  again; the chunk 1 is in the group 2.
\<close>

definition cyclic_heap :: heap where
  "cyclic_heap =
     put_chunk 0 \<lparr> id_chunk = IdNumber 0, groups = [1] \<rparr>
       (put_chunk 1 \<lparr> id_chunk = IdNumber 1, groups = [2] \<rparr>
         (put_group 1 \<lparr> chunks = [0], children = [2], options = [] \<rparr>
           (put_group 2 \<lparr> chunks = [1], children = [1], options = [] \<rparr> empty_heap)))"

text \<open>The chunk 0 is the one chunk of the group 1, and is in no other group.\<close>

definition single_group_heap :: heap where
  "single_group_heap =
     put_chunk 0 \<lparr> id_chunk = IdNumber 0, groups = [1] \<rparr>
       (put_group 1 \<lparr> chunks = [0], children = [], options = [] \<rparr> empty_heap)"





section \<open>What the operations do to the records\<close>


lemma gmgm_fst: "fst (getModuleGraphModule m g) = the_mgm g m"
  by (simp add: getModuleGraphModule_def the_mgm_def split: option.splits)

lemma gmgm_snd:
  "the_mgm (snd (getModuleGraphModule m g)) = the_mgm g"
  "dependencyMap (snd (getModuleGraphModule m g)) = dependencyMap g"
  "metaMap (snd (getModuleGraphModule m g)) = metaMap g"
  "connections (snd (getModuleGraphModule m g)) = connections g"
  "next_connection (snd (getModuleGraphModule m g)) = next_connection g"
  by (auto simp add: getModuleGraphModule_def the_mgm_def fun_eq_iff split: option.splits)

lemma gmgd_fst: "fst (getModuleGraphDependency d g) = the_mgd g d"
  by (simp add: getModuleGraphDependency_def the_mgd_def split: option.splits)

lemma gmgd_snd:
  "the_mgd (snd (getModuleGraphDependency d g)) = the_mgd g"
  "moduleMap (snd (getModuleGraphDependency d g)) = moduleMap g"
  "metaMap (snd (getModuleGraphDependency d g)) = metaMap g"
  "connections (snd (getModuleGraphDependency d g)) = connections g"
  "next_connection (snd (getModuleGraphDependency d g)) = next_connection g"
  by (auto simp add: getModuleGraphDependency_def the_mgd_def fun_eq_iff split: option.splits)

lemma the_mgm_cong: "moduleMap g = moduleMap g' \<Longrightarrow> the_mgm g = the_mgm g'"
  by (simp add: the_mgm_def fun_eq_iff)
lemma the_mgd_cong: "dependencyMap g = dependencyMap g' \<Longrightarrow> the_mgd g = the_mgd g'"
  by (simp add: the_mgd_def fun_eq_iff)
lemma the_meta_cong: "metaMap g = metaMap g' \<Longrightarrow> the_meta g = the_meta g'"
  by (simp add: the_meta_def fun_eq_iff)

lemma gmeta_fst: "fst (getMeta k g) = the_meta g k"
  by (simp add: getMeta_def the_meta_def split: option.splits)
lemma gmeta_snd:
  "the_meta (snd (getMeta k g)) = the_meta g"
  "moduleMap (snd (getMeta k g)) = moduleMap g"
  "dependencyMap (snd (getMeta k g)) = dependencyMap g"
  "connections (snd (getMeta k g)) = connections g"
  "next_connection (snd (getMeta k g)) = next_connection g"
  by (auto simp add: getMeta_def the_meta_def fun_eq_iff split: option.splits)

lemmas query_defs = getParentModule_def getParentBlock_def getModule_def getOrigin_def
  getResolvedModule_def getResolvedOrigin_def getConnection_def getIncomingConnections_def
  getOutgoingConnection_def getIssuer_def getOptimizationBailout_def getUsedExports_def

lemma run_query_fst: "fst (run_query q g) = answer_of q (the_mgd g) (the_mgm g) (the_meta g) (connections g)"
  apply (cases q)
  apply (simp_all add: answer_of_def query_defs split_def Let_def gmgm_fst gmgd_fst gmgm_snd gmgd_snd gmeta_fst)
  apply (simp_all add: the_mgd_def the_mgm_def the_meta_def gmgd_snd cong: js.case_cong)
  done

lemma run_query_snd:
  "the_mgd (snd (run_query q g)) = the_mgd g"
  "the_mgm (snd (run_query q g)) = the_mgm g"
  "the_meta (snd (run_query q g)) = the_meta g"
  "connections (snd (run_query q g)) = connections g"
     apply (cases q; simp add: query_defs split_def Let_def   gmgm_snd gmgd_snd gmeta_snd
      the_mgd_cong[OF gmgm_snd(2)] the_mgd_cong[OF gmeta_snd(3)] the_mgm_cong[OF gmgd_snd(2)] the_mgm_cong[OF gmeta_snd(2)]
      the_meta_cong[OF gmgm_snd(3)] the_meta_cong[OF gmgd_snd(3)])+
  done



lemma set_mgm_view:
  "the_mgm (set_mgm m r g) = (the_mgm g)(m := r)"
  "the_mgd (set_mgm m r g) = the_mgd g"
  "connections (set_mgm m r g) = connections g"
  "next_connection (set_mgm m r g) = next_connection g"
  "metaMap (set_mgm m r g) = metaMap g"
  by (auto simp: set_mgm_def the_mgm_def the_mgd_def fun_eq_iff)

lemma set_mgd_view:
  "the_mgd (set_mgd d r g) = (the_mgd g)(d := r)"
  "the_mgm (set_mgd d r g) = the_mgm g"
  "connections (set_mgd d r g) = connections g"
  "next_connection (set_mgd d r g) = next_connection g"
  "metaMap (set_mgd d r g) = metaMap g"
  by (auto simp: set_mgd_def the_mgm_def the_mgd_def fun_eq_iff)

lemma set_connection_view:
  "the_mgd (set_connection c v g) = the_mgd g"
  "the_mgm (set_connection c v g) = the_mgm g"
  "connections (set_connection c v g) = (connections g)(c := v)"
  "next_connection (set_connection c v g) = next_connection g"
  "metaMap (set_connection c v g) = metaMap g"
  by (auto simp: set_connection_def the_mgm_def the_mgd_def fun_eq_iff)

lemma alloc_connection_view:
  "fst (alloc_connection v g) = next_connection g"
  "the_mgd (snd (alloc_connection v g)) = the_mgd g"
  "the_mgm (snd (alloc_connection v g)) = the_mgm g"
  "connections (snd (alloc_connection v g)) = (connections g)(next_connection g := v)"
  "next_connection (snd (alloc_connection v g)) = Suc (next_connection g)"
  "metaMap (snd (alloc_connection v g)) = metaMap g"
  by (auto simp: alloc_connection_def the_mgm_def the_mgd_def fun_eq_iff)

lemma gmgm_snd_mgd: "the_mgd (snd (getModuleGraphModule m g)) = the_mgd g"
  by (rule the_mgd_cong) (simp add: gmgm_snd)
lemma gmgd_snd_mgm: "the_mgm (snd (getModuleGraphDependency m g)) = the_mgm g"
  by (rule the_mgm_cong) (simp add: gmgd_snd)

lemmas prim_view = gmgm_fst gmgm_snd gmgd_fst gmgd_snd gmgm_snd_mgd gmgd_snd_mgm
  set_mgm_view set_mgd_view set_connection_view alloc_connection_view

lemma setResolvedModule_view:
  "next_connection (setResolvedModule om d m g) = Suc (next_connection g)"
  "connections (setResolvedModule om d m g) =
     (connections g)(next_connection g := new_ModuleGraphConnection (Obj om) (Obj d) m [])"
  "the_mgd (setResolvedModule om d m g) =
     (the_mgd g)(d := (the_mgd g d)\<lparr>connection := Obj (next_connection g)\<rparr>)"
  "the_mgm (setResolvedModule om d m g) =
     (let M = (the_mgm g)(m := (the_mgm g m)\<lparr>incomingConnections := set_add (next_connection g) (incomingConnections (the_mgm g m))\<rparr>)
      in M(om := (M om)\<lparr>outgoingConnections := set_add (next_connection g) (outgoingConnections (M om))\<rparr>))"
  "metaMap (setResolvedModule om d m g) = metaMap g"
  by (simp_all add: setResolvedModule_def split_def Let_def prim_view)

lemma updateModule_view:
  "next_connection (snd (updateModule d m g)) = next_connection g"
  "the_mgd (snd (updateModule d m g)) = the_mgd g"
  "metaMap (snd (updateModule d m g)) = metaMap g"
  "connections (snd (updateModule d m g)) =
     (case connection (the_mgd g d) of
        Obj c \<Rightarrow> (connections g)(c := (connections g c)\<lparr>module := m\<rparr>)
      | _ \<Rightarrow> connections g)"
  "the_mgm (snd (updateModule d m g)) =
     (case connection (the_mgd g d) of
        Obj c \<Rightarrow> if module (connections g c) = m then the_mgm g else
           (let old = module (connections g c);
                M = (the_mgm g)(old := (the_mgm g old)\<lparr>incomingConnections := set_delete c (incomingConnections (the_mgm g old))\<rparr>)
            in M(m := (M m)\<lparr>incomingConnections := set_add c (incomingConnections (M m))\<rparr>))
      | _ \<Rightarrow> the_mgm g)"
  "fst (updateModule d m g) = (case connection (the_mgd g d) of Obj c \<Rightarrow> Inr () | _ \<Rightarrow> Inl TypeError)"
  by (auto simp add: updateModule_def split_def Let_def prim_view fun_eq_iff split: js.splits)

lemma addExplanation_view:
  "next_connection (snd (addExplanation d e g)) = next_connection g"
  "the_mgd (snd (addExplanation d e g)) = the_mgd g"
  "the_mgm (snd (addExplanation d e g)) = the_mgm g"
  "metaMap (snd (addExplanation d e g)) = metaMap g"
  "connections (snd (addExplanation d e g)) =
     (case connection (the_mgd g d) of
        Obj c \<Rightarrow> (connections g)(c := (connections g c)\<lparr>explanations := explanations (connections g c) @ [e]\<rparr>)
      | _ \<Rightarrow> connections g)"
  "fst (addExplanation d e g) = (case connection (the_mgd g d) of Obj c \<Rightarrow> Inr () | _ \<Rightarrow> Inl TypeError)"
  by (auto simp add: addExplanation_def split_def Let_def prim_view fun_eq_iff split: js.splits)

lemma addExtraReason_view:
  "next_connection (addExtraReason m e g) = Suc (next_connection g)"
  "the_mgd (addExtraReason m e g) = the_mgd g"
  "metaMap (addExtraReason m e g) = metaMap g"
  "connections (addExtraReason m e g) =
     (connections g)(next_connection g := new_ModuleGraphConnection Null Null m [e])"
  "the_mgm (addExtraReason m e g) =
     (the_mgm g)(m := (the_mgm g m)\<lparr>incomingConnections := set_add (next_connection g) (incomingConnections (the_mgm g m))\<rparr>)"
  by (simp_all add: addExtraReason_def split_def Let_def prim_view)

lemma setParents_view:
  "next_connection (setParents d b m g) = next_connection g"
  "the_mgd (setParents d b m g) = (the_mgd g)(d := (the_mgd g d)\<lparr>parentBlock := b, parentModule := m\<rparr>)"
  "the_mgm (setParents d b m g) = the_mgm g"
  "metaMap (setParents d b m g) = metaMap g"
  "connections (setParents d b m g) = connections g"
  by (simp_all add: setParents_def split_def Let_def prim_view)

lemma setIssuer_view:
  "next_connection (setIssuer m i g) = next_connection g"
  "the_mgd (setIssuer m i g) = the_mgd g"
  "the_mgm (setIssuer m i g) = (the_mgm g)(m := (the_mgm g m)\<lparr>issuer := i\<rparr>)"
  "metaMap (setIssuer m i g) = metaMap g"
  "connections (setIssuer m i g) = connections g"
  by (simp_all add: setIssuer_def split_def Let_def prim_view)

lemma setUsedExports_view:
  "next_connection (setUsedExports m i g) = next_connection g"
  "the_mgd (setUsedExports m i g) = the_mgd g"
  "the_mgm (setUsedExports m i g) = (the_mgm g)(m := (the_mgm g m)\<lparr>usedExports := i\<rparr>)"
  "metaMap (setUsedExports m i g) = metaMap g"
  "connections (setUsedExports m i g) = connections g"
  by (simp_all add: setUsedExports_def split_def Let_def prim_view)

lemma run_query_next: "next_connection (snd (run_query q g)) = next_connection g"
  by (cases q) (simp_all add: query_defs split_def Let_def prim_view gmeta_snd)



lemma set_fold_set_add: "set (fold set_add zs ys) = set ys \<union> set zs"
  by (induction zs arbitrary: ys) (auto simp: set_add_def)

lemma distinct_set_add: "distinct ys \<Longrightarrow> distinct (set_add z ys)"
  by (simp add: set_add_def)

lemma distinct_fold_set_add: "distinct ys \<Longrightarrow> distinct (fold set_add zs ys)"
  by (induction zs arbitrary: ys) (auto simp: distinct_set_add)

lemma set_add_mem: "z \<in> set ys \<Longrightarrow> set_add z ys = ys"
  by (simp add: set_add_def)

lemma mgm_out_eq: "(r\<lparr>outgoingConnections := a\<rparr> = r\<lparr>outgoingConnections := b\<rparr>) = (a = b)"
  by (cases r) simp
lemma mgm_in_eq: "(r\<lparr>incomingConnections := a\<rparr> = r\<lparr>incomingConnections := b\<rparr>) = (a = b)"
  by (cases r) simp

lemma replaceOutgoing_view:
  "next_connection (replaceOutgoing A D f c g) = next_connection g"
  "the_mgd (replaceOutgoing A D f c g) = the_mgd g"
  "metaMap (replaceOutgoing A D f c g) = metaMap g"
  "connections (replaceOutgoing A D f c g) =
     (if f c (connections g c) then (connections g)(c := (connections g c)\<lparr>originModule := Obj D\<rparr>)
      else connections g)"
  "A \<noteq> D \<Longrightarrow> the_mgm (replaceOutgoing A D f c g) =
     (if f c (connections g c) then
        (the_mgm g)(D := (the_mgm g D)\<lparr>outgoingConnections := set_add c (outgoingConnections (the_mgm g D))\<rparr>,
                    A := (the_mgm g A)\<lparr>outgoingConnections := set_delete c (outgoingConnections (the_mgm g A))\<rparr>)
      else the_mgm g)"
  by (simp_all add: replaceOutgoing_def Let_def prim_view)

lemma replaceIncoming_view:
  "next_connection (replaceIncoming A D f c g) = next_connection g"
  "the_mgd (replaceIncoming A D f c g) = the_mgd g"
  "metaMap (replaceIncoming A D f c g) = metaMap g"
  "connections (replaceIncoming A D f c g) =
     (if f c (connections g c) then (connections g)(c := (connections g c)\<lparr>module := D\<rparr>)
      else connections g)"
  "A \<noteq> D \<Longrightarrow> the_mgm (replaceIncoming A D f c g) =
     (if f c (connections g c) then
        (the_mgm g)(D := (the_mgm g D)\<lparr>incomingConnections := set_add c (incomingConnections (the_mgm g D))\<rparr>,
                    A := (the_mgm g A)\<lparr>incomingConnections := set_delete c (incomingConnections (the_mgm g A))\<rparr>)
      else the_mgm g)"
  by (simp_all add: replaceIncoming_def Let_def prim_view)

lemma fold_replaceOutgoing_frame:
  "next_connection (fold (replaceOutgoing A D f) xs g) = next_connection g"
  "the_mgd (fold (replaceOutgoing A D f) xs g) = the_mgd g"
  "metaMap (fold (replaceOutgoing A D f) xs g) = metaMap g"
  by (induction xs arbitrary: g) (simp_all add: replaceOutgoing_view)

lemma fold_replaceIncoming_frame:
  "next_connection (fold (replaceIncoming A D f) xs g) = next_connection g"
  "the_mgd (fold (replaceIncoming A D f) xs g) = the_mgd g"
  "metaMap (fold (replaceIncoming A D f) xs g) = metaMap g"
  by (induction xs arbitrary: g) (simp_all add: replaceIncoming_view)

lemma fold_replaceOutgoing_closed:
  assumes "A \<noteq> D"
  shows "connections (fold (replaceOutgoing A D f) xs g) =
           (\<lambda>c. if c \<in> set xs \<and> f c (connections g c)
                then (connections g c)\<lparr>originModule := Obj D\<rparr> else connections g c)
       \<and> the_mgm (fold (replaceOutgoing A D f) xs g) =
           (the_mgm g)
             (D := (the_mgm g D)\<lparr>outgoingConnections :=
                     fold set_add (filter (\<lambda>c. f c (connections g c)) xs)
                       (outgoingConnections (the_mgm g D))\<rparr>,
              A := (the_mgm g A)\<lparr>outgoingConnections :=
                     filter (\<lambda>c. \<not> (c \<in> set xs \<and> f c (connections g c)))
                       (outgoingConnections (the_mgm g A))\<rparr>)"
proof (induction xs rule: rev_induct)
  case Nil
  then show ?case using assms by (simp add: fun_eq_iff)
next
  case (snoc x xs)
  let ?g1 = "fold (replaceOutgoing A D f) xs g"
  have c1: "connections ?g1 = (\<lambda>c. if c \<in> set xs \<and> f c (connections g c)
                then (connections g c)\<lparr>originModule := Obj D\<rparr> else connections g c)"
    by (rule conjunct1[OF snoc.IH])
  have m1: "the_mgm ?g1 = (the_mgm g)
             (D := (the_mgm g D)\<lparr>outgoingConnections :=
                     fold set_add (filter (\<lambda>c. f c (connections g c)) xs)
                       (outgoingConnections (the_mgm g D))\<rparr>,
              A := (the_mgm g A)\<lparr>outgoingConnections :=
                     filter (\<lambda>c. \<not> (c \<in> set xs \<and> f c (connections g c)))
                       (outgoingConnections (the_mgm g A))\<rparr>)"
    by (rule conjunct2[OF snoc.IH])
  have rm: "\<And>P ys. removeAll x (filter P ys) = filter (\<lambda>c. P c \<and> c \<noteq> x) ys"
    by (induct_tac ys) auto
  show ?case
  proof (cases "x \<in> set xs \<and> f x (connections g x)")
    case True
    have inD: "x \<in> set (fold set_add (filter (\<lambda>c. f c (connections g c)) xs) (outgoingConnections (the_mgm g D)))"
      using True by (simp add: set_fold_set_add)
    show ?thesis
      using True assms inD
      apply (simp add: replaceOutgoing_view c1 m1 fun_eq_iff set_add_mem set_delete_def rm mgm_out_eq)
      apply (auto intro!: filter_cong)
      done
  next
    case False
    show ?thesis
      using False assms
      apply (simp add: replaceOutgoing_view c1 m1 fun_eq_iff set_delete_def rm mgm_out_eq)
      apply (auto intro!: filter_cong)
      done
  qed
qed

lemma fold_replaceIncoming_closed:
  assumes "A \<noteq> D"
  shows "connections (fold (replaceIncoming A D f) xs g) =
           (\<lambda>c. if c \<in> set xs \<and> f c (connections g c)
                then (connections g c)\<lparr>module := D\<rparr> else connections g c)
       \<and> the_mgm (fold (replaceIncoming A D f) xs g) =
           (the_mgm g)
             (D := (the_mgm g D)\<lparr>incomingConnections :=
                     fold set_add (filter (\<lambda>c. f c (connections g c)) xs)
                       (incomingConnections (the_mgm g D))\<rparr>,
              A := (the_mgm g A)\<lparr>incomingConnections :=
                     filter (\<lambda>c. \<not> (c \<in> set xs \<and> f c (connections g c)))
                       (incomingConnections (the_mgm g A))\<rparr>)"
proof (induction xs rule: rev_induct)
  case Nil
  then show ?case using assms by (simp add: fun_eq_iff)
next
  case (snoc x xs)
  let ?g1 = "fold (replaceIncoming A D f) xs g"
  have c1: "connections ?g1 = (\<lambda>c. if c \<in> set xs \<and> f c (connections g c)
                then (connections g c)\<lparr>module := D\<rparr> else connections g c)"
    by (rule conjunct1[OF snoc.IH])
  have m1: "the_mgm ?g1 = (the_mgm g)
             (D := (the_mgm g D)\<lparr>incomingConnections :=
                     fold set_add (filter (\<lambda>c. f c (connections g c)) xs)
                       (incomingConnections (the_mgm g D))\<rparr>,
              A := (the_mgm g A)\<lparr>incomingConnections :=
                     filter (\<lambda>c. \<not> (c \<in> set xs \<and> f c (connections g c)))
                       (incomingConnections (the_mgm g A))\<rparr>)"
    by (rule conjunct2[OF snoc.IH])
  have rm: "\<And>P ys. removeAll x (filter P ys) = filter (\<lambda>c. P c \<and> c \<noteq> x) ys"
    by (induct_tac ys) auto
  show ?case
  proof (cases "x \<in> set xs \<and> f x (connections g x)")
    case True
    have inD: "x \<in> set (fold set_add (filter (\<lambda>c. f c (connections g c)) xs) (incomingConnections (the_mgm g D)))"
      using True by (simp add: set_fold_set_add)
    show ?thesis
      using True assms inD
      apply (simp add: replaceIncoming_view c1 m1 fun_eq_iff set_add_mem set_delete_def rm mgm_in_eq)
      apply (auto intro!: filter_cong)
      done
  next
    case False
    show ?thesis
      using False assms
      apply (simp add: replaceIncoming_view c1 m1 fun_eq_iff set_delete_def rm mgm_in_eq)
      apply (auto intro!: filter_cong)
      done
  qed
qed


lemma replaceModule_outgoing_view:
  "next_connection (replaceModule_outgoing A D f g) = next_connection g"
  "the_mgd (replaceModule_outgoing A D f g) = the_mgd g"
  "metaMap (replaceModule_outgoing A D f g) = metaMap g"
  "A \<noteq> D \<Longrightarrow> connections (replaceModule_outgoing A D f g) =
      (\<lambda>c. if c \<in> set (outgoingConnections (the_mgm g A)) \<and> f c (connections g c)
                then (connections g c)\<lparr>originModule := Obj D\<rparr> else connections g c)"
  "A \<noteq> D \<Longrightarrow> the_mgm (replaceModule_outgoing A D f g) =
           (the_mgm g)
             (D := (the_mgm g D)\<lparr>outgoingConnections :=
                     fold set_add (filter (\<lambda>c. f c (connections g c)) (outgoingConnections (the_mgm g A)))
                       (outgoingConnections (the_mgm g D))\<rparr>,
              A := (the_mgm g A)\<lparr>outgoingConnections :=
                     filter (\<lambda>c. \<not> f c (connections g c))
                       (outgoingConnections (the_mgm g A))\<rparr>)"
  by (simp_all add: replaceModule_outgoing_def split_def Let_def fold_replaceOutgoing_frame
      fold_replaceOutgoing_closed prim_view mgm_out_eq cong: filter_cong if_cong)

lemma replaceModule_view:
  "next_connection (replaceModule A D f g) = next_connection g"
  "the_mgd (replaceModule A D f g) = the_mgd g"
  "metaMap (replaceModule A D f g) = metaMap g"
  "A \<noteq> D \<Longrightarrow> connections (replaceModule A D f g) =
      (\<lambda>c. if c \<in> set (incomingConnections (the_mgm g A)) \<and> f c (connections (replaceModule_outgoing A D f g) c)
                then (connections (replaceModule_outgoing A D f g) c)\<lparr>module := D\<rparr> else connections (replaceModule_outgoing A D f g) c)"
  "A \<noteq> D \<Longrightarrow> the_mgm (replaceModule A D f g) =
           (the_mgm g)
             (D := (the_mgm g D)\<lparr>outgoingConnections :=
                     fold set_add (filter (\<lambda>c. f c (connections g c)) (outgoingConnections (the_mgm g A)))
                       (outgoingConnections (the_mgm g D)),
                   incomingConnections :=
                     fold set_add (filter (\<lambda>c. f c (connections (replaceModule_outgoing A D f g) c)) (incomingConnections (the_mgm g A)))
                       (incomingConnections (the_mgm g D))\<rparr>,
              A := (the_mgm g A)\<lparr>outgoingConnections :=
                     filter (\<lambda>c. \<not> f c (connections g c))
                       (outgoingConnections (the_mgm g A)),
                   incomingConnections :=
                     filter (\<lambda>c. \<not> f c (connections (replaceModule_outgoing A D f g) c))
                       (incomingConnections (the_mgm g A))\<rparr>)"
  by (simp_all add: replaceModule_def split_def Let_def fold_replaceIncoming_frame
      fold_replaceIncoming_closed replaceModule_outgoing_view mgm_in_eq fun_eq_iff cong: filter_cong if_cong)

lemma replaceModule_same: "replaceModule A A f g = g"
  by (simp add: replaceModule_def)

section \<open>The invariant of the module graph\<close>

lemma set_add_set: "set (set_add x xs) = insert x (set xs)"
  by (auto simp: set_add_def)

lemma set_delete_set: "set (set_delete x xs) = set xs - {x}"
  by (auto simp: set_delete_def)

lemma distinct_set_delete: "distinct xs \<Longrightarrow> distinct (set_delete x xs)"
  by (simp add: set_delete_def distinct_removeAll)

lemma graph_inv_new: "graph_inv new_ModuleGraph"
  by (simp add: graph_inv_def new_ModuleGraph_def the_mgm_def the_mgd_def
      new_ModuleGraphModule_def new_ModuleGraphDependency_def)

lemma graph_invI:
  assumes "\<And>m. distinct (incomingConnections (the_mgm g m))"
    and "\<And>m. distinct (outgoingConnections (the_mgm g m))"
    and "\<And>m c. c \<in> set (incomingConnections (the_mgm g m)) \<Longrightarrow> c < next_connection g \<and> module (connections g c) = m"
    and "\<And>m c. c \<in> set (outgoingConnections (the_mgm g m)) \<Longrightarrow> c < next_connection g \<and> originModule (connections g c) = Obj m"
    and "\<And>c. c < next_connection g \<Longrightarrow> c \<in> set (incomingConnections (the_mgm g (module (connections g c))))"
    and "\<And>c om. c < next_connection g \<Longrightarrow> originModule (connections g c) = Obj om \<Longrightarrow> c \<in> set (outgoingConnections (the_mgm g om))"
    and "\<And>d c. connection (the_mgd g d) = Obj c \<Longrightarrow> c < next_connection g"
  shows "graph_inv g"
  unfolding graph_inv_def using assms by blast

lemma graph_invD:
  assumes "graph_inv g"
  shows "distinct (incomingConnections (the_mgm g m))"
    and "distinct (outgoingConnections (the_mgm g m))"
    and "c \<in> set (incomingConnections (the_mgm g m)) \<Longrightarrow> c < next_connection g"
    and "c \<in> set (incomingConnections (the_mgm g m)) \<Longrightarrow> module (connections g c) = m"
    and "c \<in> set (outgoingConnections (the_mgm g m)) \<Longrightarrow> c < next_connection g"
    and "c \<in> set (outgoingConnections (the_mgm g m)) \<Longrightarrow> originModule (connections g c) = Obj m"
    and "c < next_connection g \<Longrightarrow> c \<in> set (incomingConnections (the_mgm g (module (connections g c))))"
    and "c < next_connection g \<Longrightarrow> originModule (connections g c) = Obj om \<Longrightarrow> c \<in> set (outgoingConnections (the_mgm g om))"
    and "connection (the_mgd g d) = Obj c \<Longrightarrow> c < next_connection g"
  using assms unfolding graph_inv_def by blast+

lemma setResolvedModule_sets:
  "incomingConnections (the_mgm (setResolvedModule om d m g) x) =
     (if x = m then set_add (next_connection g) (incomingConnections (the_mgm g x))
      else incomingConnections (the_mgm g x))"
  "outgoingConnections (the_mgm (setResolvedModule om d m g) x) =
     (if x = om then set_add (next_connection g) (outgoingConnections (the_mgm g x))
      else outgoingConnections (the_mgm g x))"
  by (simp_all add: setResolvedModule_view Let_def)

lemma fresh_not_in:
  assumes "graph_inv g"
  shows "next_connection g \<notin> set (incomingConnections (the_mgm g m))"
    and "next_connection g \<notin> set (outgoingConnections (the_mgm g m))"
  using graph_invD(3,5)[OF assms] by blast+

lemma graph_inv_setResolvedModule:
  assumes inv: "graph_inv g" shows "graph_inv (setResolvedModule om d m g)"
proof (rule graph_invI)
  let ?g' = "setResolvedModule om d m g"
  note D = graph_invD[OF inv]
  show "distinct (incomingConnections (the_mgm ?g' x))" for x
    by (simp add: setResolvedModule_sets distinct_set_add D)
  show "distinct (outgoingConnections (the_mgm ?g' x))" for x
    by (simp add: setResolvedModule_sets distinct_set_add D)
  show "c < next_connection ?g' \<and> module (connections ?g' c) = x"
    if "c \<in> set (incomingConnections (the_mgm ?g' x))" for x c
    using that D(3,4)[of c x]
    by (auto simp: setResolvedModule_sets setResolvedModule_view set_add_set new_ModuleGraphConnection_def split: if_splits)
  show "c < next_connection ?g' \<and> originModule (connections ?g' c) = Obj x"
    if "c \<in> set (outgoingConnections (the_mgm ?g' x))" for x c
    using that D(5,6)[of c x]
    by (auto simp: setResolvedModule_sets setResolvedModule_view set_add_set new_ModuleGraphConnection_def split: if_splits)
  show "c \<in> set (incomingConnections (the_mgm ?g' (module (connections ?g' c))))"
    if "c < next_connection ?g'" for c
    using that D(7)[of c]
    by (auto simp: setResolvedModule_sets setResolvedModule_view(1,2) set_add_set new_ModuleGraphConnection_def less_Suc_eq)
  show "c \<in> set (outgoingConnections (the_mgm ?g' x))"
    if "c < next_connection ?g'" "originModule (connections ?g' c) = Obj x" for c x
    using that D(8)[of c x]
    by (auto simp: setResolvedModule_sets setResolvedModule_view(1,2) set_add_set new_ModuleGraphConnection_def less_Suc_eq split: if_splits)
  show "c < next_connection ?g'" if "connection (the_mgd ?g' x) = Obj c" for x c
    using that D(9)[of x c]
    by (auto simp: setResolvedModule_view(1,3) split: if_splits)
qed


lemma graph_inv_frame:
  assumes inv: "graph_inv g"
    and eqs: "\<And>m. incomingConnections (the_mgm g' m) = incomingConnections (the_mgm g m)"
    "\<And>m. outgoingConnections (the_mgm g' m) = outgoingConnections (the_mgm g m)"
    "\<And>c. module (connections g' c) = module (connections g c)"
    "\<And>c. originModule (connections g' c) = originModule (connections g c)"
    "next_connection g' = next_connection g"
    "\<And>d. connection (the_mgd g' d) = connection (the_mgd g d)"
  shows "graph_inv g'"
  unfolding graph_inv_def eqs using inv unfolding graph_inv_def .


lemma addExtraReason_sets:
  "incomingConnections (the_mgm (addExtraReason m e g) x) =
     (if x = m then set_add (next_connection g) (incomingConnections (the_mgm g x))
      else incomingConnections (the_mgm g x))"
  "outgoingConnections (the_mgm (addExtraReason m e g) x) = outgoingConnections (the_mgm g x)"
  by (simp_all add: addExtraReason_view)

lemma graph_inv_addExtraReason:
  assumes inv: "graph_inv g" shows "graph_inv (addExtraReason m e g)"
proof (rule graph_invI)
  let ?g' = "addExtraReason m e g"
  note D = graph_invD[OF inv]
  show "distinct (incomingConnections (the_mgm ?g' x))" for x
    by (simp add: addExtraReason_sets distinct_set_add D)
  show "distinct (outgoingConnections (the_mgm ?g' x))" for x
    by (simp add: addExtraReason_sets D)
  show "c < next_connection ?g' \<and> module (connections ?g' c) = x"
    if "c \<in> set (incomingConnections (the_mgm ?g' x))" for x c
    using that D(3,4)[of c x]
    by (auto simp: addExtraReason_sets addExtraReason_view(1,4) set_add_set new_ModuleGraphConnection_def split: if_splits)
  show "c < next_connection ?g' \<and> originModule (connections ?g' c) = Obj x"
    if "c \<in> set (outgoingConnections (the_mgm ?g' x))" for x c
    using that D(5,6)[of c x]
    by (auto simp: addExtraReason_sets addExtraReason_view(1,4) set_add_set new_ModuleGraphConnection_def split: if_splits)
  show "c \<in> set (incomingConnections (the_mgm ?g' (module (connections ?g' c))))"
    if "c < next_connection ?g'" for c
    using that D(7)[of c]
    by (auto simp: addExtraReason_sets addExtraReason_view(1,4) set_add_set new_ModuleGraphConnection_def less_Suc_eq)
  show "c \<in> set (outgoingConnections (the_mgm ?g' x))"
    if "c < next_connection ?g'" "originModule (connections ?g' c) = Obj x" for c x
    using that D(8)[of c x]
    by (auto simp: addExtraReason_sets addExtraReason_view(1,4) set_add_set new_ModuleGraphConnection_def less_Suc_eq split: if_splits)
  show "c < next_connection ?g'" if "connection (the_mgd ?g' x) = Obj c" for x c
    using that D(9)[of x c]
    by (auto simp: addExtraReason_view(1,2) split: if_splits)
qed

lemma updateModule_sets:
  assumes "connection (the_mgd g d) = Obj c" "module (connections g c) \<noteq> m"
  shows "incomingConnections (the_mgm (snd (updateModule d m g)) x) =
     (if x = m then set_add c (incomingConnections (the_mgm g x))
      else if x = module (connections g c) then set_delete c (incomingConnections (the_mgm g x))
      else incomingConnections (the_mgm g x))"
  "outgoingConnections (the_mgm (snd (updateModule d m g)) x) = outgoingConnections (the_mgm g x)"
  "connections (snd (updateModule d m g)) = (connections g)(c := (connections g c)\<lparr>module := m\<rparr>)"
  using assms by (simp_all add: updateModule_view Let_def)

lemma graph_inv_updateModule:
  assumes inv: "graph_inv g" shows "graph_inv (snd (updateModule d m g))"
proof (cases "\<exists>c. connection (the_mgd g d) = Obj c \<and> module (connections g c) \<noteq> m")
  case False
  show ?thesis
  proof (rule graph_inv_frame[OF inv])
    show "incomingConnections (the_mgm (snd (updateModule d m g)) x) = incomingConnections (the_mgm g x)" for x
      using False by (auto simp: updateModule_view split: js.splits)
    show "outgoingConnections (the_mgm (snd (updateModule d m g)) x) = outgoingConnections (the_mgm g x)" for x
      using False by (auto simp: updateModule_view split: js.splits)
    show "module (connections (snd (updateModule d m g)) x) = module (connections g x)" for x
      using False by (auto simp: updateModule_view split: js.splits)
    show "originModule (connections (snd (updateModule d m g)) x) = originModule (connections g x)" for x
      using False by (auto simp: updateModule_view split: js.splits)
  qed (simp_all add: updateModule_view)
next
  case True
  then obtain c0 where c0: "connection (the_mgd g d) = Obj c0" "module (connections g c0) \<noteq> m"
    by blast
  note S = updateModule_sets[OF c0]
  note D = graph_invD[OF inv]
  let ?g' = "snd (updateModule d m g)"
  have c0b: "c0 < next_connection g" using D(9) c0(1) by blast
  show ?thesis
  proof (rule graph_invI)
    show "distinct (incomingConnections (the_mgm ?g' x))" for x
      by (simp add: S distinct_set_add distinct_set_delete D)
    show "distinct (outgoingConnections (the_mgm ?g' x))" for x
      by (simp add: S D)
    show "c < next_connection ?g' \<and> module (connections ?g' c) = x"
      if "c \<in> set (incomingConnections (the_mgm ?g' x))" for x c
      using that D(3,4)[of c x] c0b
      by (auto simp: S updateModule_view(1) set_add_set set_delete_set split: if_splits)
    show "c < next_connection ?g' \<and> originModule (connections ?g' c) = Obj x"
      if "c \<in> set (outgoingConnections (the_mgm ?g' x))" for x c
      using that D(5,6)[of c x]
      by (auto simp: S updateModule_view(1) split: if_splits)
    show "c \<in> set (incomingConnections (the_mgm ?g' (module (connections ?g' c))))"
      if "c < next_connection ?g'" for c
      using that D(7)[of c] c0(2)
      by (auto simp: S updateModule_view(1) set_add_set set_delete_set)
    show "c \<in> set (outgoingConnections (the_mgm ?g' x))"
      if "c < next_connection ?g'" "originModule (connections ?g' c) = Obj x" for c x
      using that D(8)[of c x]
      by (auto simp: S updateModule_view(1) split: if_splits)
    show "c < next_connection ?g'" if "connection (the_mgd ?g' x) = Obj c" for x c
      using that D(9)[of x c]
      by (auto simp: updateModule_view(1,2))
  qed
qed

lemma replaceModule_sets:
  assumes "A \<noteq> D"
  shows "incomingConnections (the_mgm (replaceModule A D f g) x) =
     (if x = A then filter (\<lambda>c. \<not> f c (connections (replaceModule_outgoing A D f g) c))
                      (incomingConnections (the_mgm g A))
      else if x = D then
        fold set_add (filter (\<lambda>c. f c (connections (replaceModule_outgoing A D f g) c))
                        (incomingConnections (the_mgm g A)))
          (incomingConnections (the_mgm g D))
      else incomingConnections (the_mgm g x))"
  "outgoingConnections (the_mgm (replaceModule A D f g) x) =
     (if x = A then filter (\<lambda>c. \<not> f c (connections g c)) (outgoingConnections (the_mgm g A))
      else if x = D then
        fold set_add (filter (\<lambda>c. f c (connections g c)) (outgoingConnections (the_mgm g A)))
          (outgoingConnections (the_mgm g D))
      else outgoingConnections (the_mgm g x))"
  using assms by (simp_all add: replaceModule_view)

lemma replaceModule_ends:
  assumes "A \<noteq> D"
  shows "module (connections (replaceModule A D f g) c) =
     (if c \<in> set (incomingConnections (the_mgm g A))
          \<and> f c (connections (replaceModule_outgoing A D f g) c)
      then D else module (connections g c))"
  "originModule (connections (replaceModule A D f g) c) =
     (if c \<in> set (outgoingConnections (the_mgm g A)) \<and> f c (connections g c)
      then Obj D else originModule (connections g c))"
  using assms by (simp_all add: replaceModule_view replaceModule_outgoing_view)

lemma graph_inv_replaceModule:
  assumes inv: "graph_inv g" shows "graph_inv (replaceModule A D f g)"
proof (cases "A = D")
  case True
  then show ?thesis using inv by (simp add: replaceModule_same)
next
  case False
  note S = replaceModule_sets[OF False] replaceModule_ends[OF False]
  note D = graph_invD[OF inv]
  let ?g' = "replaceModule A D f g"
  show ?thesis
  proof (rule graph_invI)
    show "distinct (incomingConnections (the_mgm ?g' x))" for x
      by (simp add: S distinct_fold_set_add D)
    show "distinct (outgoingConnections (the_mgm ?g' x))" for x
      by (simp add: S distinct_fold_set_add D)
    show "c < next_connection ?g' \<and> module (connections ?g' c) = x"
      if "c \<in> set (incomingConnections (the_mgm ?g' x))" for x c
      using that D(3,4)[of c x] D(3,4)[of c A] False
      by (auto simp: S replaceModule_view(1) set_fold_set_add split: if_splits)
    show "c < next_connection ?g' \<and> originModule (connections ?g' c) = Obj x"
      if "c \<in> set (outgoingConnections (the_mgm ?g' x))" for x c
      using that D(5,6)[of c x] D(5,6)[of c A] False
      by (auto simp: S replaceModule_view(1) set_fold_set_add split: if_splits)
    show "c \<in> set (incomingConnections (the_mgm ?g' (module (connections ?g' c))))"
      if "c < next_connection ?g'" for c
      using that D(7)[of c] False
      by (auto simp: S replaceModule_view(1) set_fold_set_add)
    show "c \<in> set (outgoingConnections (the_mgm ?g' x))"
      if "c < next_connection ?g'" "originModule (connections ?g' c) = Obj x" for c x
      using that D(8)[of c x] False
      by (auto simp: S replaceModule_view(1) set_fold_set_add split: if_splits)
    show "c < next_connection ?g'" if "connection (the_mgd ?g' x) = Obj c" for x c
      using that D(9)[of x c]
      by (auto simp: replaceModule_view(1,2))
  qed
qed

lemma graph_inv_apply_operation:
  assumes inv: "graph_inv g" shows "graph_inv (apply_operation op g)"
proof (cases op)
  case (SetParents d b m)
  show ?thesis unfolding SetParents apply_operation.simps
    by (rule graph_inv_frame[OF inv]) (simp_all add: setParents_view)
next
  case (SetResolvedModule om d m)
  then show ?thesis using inv by (simp add: graph_inv_setResolvedModule)
next
  case (UpdateModule d m)
  then show ?thesis using inv by (simp add: graph_inv_updateModule)
next
  case (AddExplanation d e)
  show ?thesis unfolding AddExplanation apply_operation.simps
    by (rule graph_inv_frame[OF inv]) (auto simp add: addExplanation_view split: js.splits)
next
  case (ReplaceModule A D f)
  then show ?thesis using inv by (simp add: graph_inv_replaceModule)
next
  case (AddExtraReason m e)
  then show ?thesis using inv by (simp add: graph_inv_addExtraReason)
next
  case (SetIssuer m i)
  show ?thesis unfolding SetIssuer apply_operation.simps
    by (rule graph_inv_frame[OF inv]) (simp_all add: setIssuer_view)
next
  case (SetUsedExports m u)
  show ?thesis unfolding SetUsedExports apply_operation.simps
    by (rule graph_inv_frame[OF inv]) (simp_all add: setUsedExports_view)
next
  case (Query q)
  show ?thesis unfolding Query apply_operation.simps
    by (rule graph_inv_frame[OF inv]) (simp_all add: run_query_snd run_query_next)
qed

lemma graph_inv_fold:
  "graph_inv g \<Longrightarrow> graph_inv (fold apply_operation ops g)"
  by (induction ops arbitrary: g) (simp_all add: graph_inv_apply_operation)

lemma graph_inv_run: "graph_inv (run_operations ops new_ModuleGraph)"
  unfolding run_operations_def by (rule graph_inv_fold[OF graph_inv_new])

section \<open>The module graph: edge symmetry\<close>

lemma query_fst:
  "fst (getIncomingConnections m g) = incomingConnections (the_mgm g m)"
  "fst (getOutgoingConnection m g) = outgoingConnections (the_mgm g m)"
  "fst (getConnection d g) = connection (the_mgd g d)"
  "fst (getUsedExports m g) = usedExports (the_mgm g m)"
  "fst (getModule d g) = (case connection (the_mgd g d) of Undefined \<Rightarrow> Inr Null
       | Null \<Rightarrow> Inl TypeError | Obj c \<Rightarrow> Inr (Obj (module (connections g c))))"
  "fst (getOrigin d g) = (case connection (the_mgd g d) of Undefined \<Rightarrow> Inr Null
       | Null \<Rightarrow> Inl TypeError | Obj c \<Rightarrow> Inr (originModule (connections g c)))"
  by (simp_all add: query_defs split_def Let_def prim_view cong: js.case_cong)

lemma graph_inv_edge_symmetric:
  assumes inv: "graph_inv g" and c: "c < next_connection g"
  shows "edge_symmetric g c"
  unfolding edge_symmetric_def query_fst
  using graph_invD(4,6,7,8)[OF inv] c by blast

lemma graph_inv_live_allocated:
  assumes inv: "graph_inv g" and l: "live g c"
  shows "c < next_connection g"
  using l graph_invD(9)[OF inv] unfolding live_def query_fst by blast

text \<open>
  Claim C1 (edge symmetry). Start from the empty graph and run any sequence of operations
  (\<open>setResolvedModule\<close>, \<open>updateModule\<close>, \<open>replaceModule\<close>, \<open>addExtraReason\<close>,
  and also the other methods of the graph; a call that throws counts with the graph it
  leaves). Then every live connection is in the incoming set of its module, in the
  outgoing set of its origin module unless that is null, and in the incoming or outgoing
  set of no other module. The restriction to one \<open>setResolvedModule\<close> call for each
  dependency is not needed for this.
\<close>

theorem edge_symmetry:
  assumes "live (run_operations ops new_ModuleGraph) c"
  shows "edge_symmetric (run_operations ops new_ModuleGraph) c"
  using graph_inv_edge_symmetric[OF graph_inv_run graph_inv_live_allocated[OF graph_inv_run assms]] .

lemmas op_view = setResolvedModule_view updateModule_view replaceModule_view addExtraReason_view
  setParents_view setIssuer_view setUsedExports_view addExplanation_view

lemma new_view:
  "the_mgm new_ModuleGraph = (\<lambda>_. new_ModuleGraphModule)"
  "the_mgd new_ModuleGraph = (\<lambda>_. new_ModuleGraphDependency)"
  "next_connection new_ModuleGraph = 0"
  "connections new_ModuleGraph = (\<lambda>_. new_ModuleGraphConnection Null Null 0 [])"
  by (simp_all add: new_ModuleGraph_def the_mgm_def the_mgd_def fun_eq_iff)

theorem edge_symmetry_witness:
  "live (run_operations
          [SetResolvedModule 1 7 2, UpdateModule 7 3, ReplaceModule 1 4 (\<lambda>c v. True), AddExtraReason 3 ''entry'']
          new_ModuleGraph) 0
   \<and> edge_symmetric (run_operations
          [SetResolvedModule 1 7 2, UpdateModule 7 3, ReplaceModule 1 4 (\<lambda>c v. True), AddExtraReason 3 ''entry'']
          new_ModuleGraph) 0"
proof -
  let ?g = "run_operations
          [SetResolvedModule 1 7 2, UpdateModule 7 3, ReplaceModule 1 4 (\<lambda>c v. True), AddExtraReason 3 ''entry'']
          new_ModuleGraph"
  have "connection (the_mgd ?g 7) = Obj 0"
    by (simp add: run_operations_def op_view new_view)
  then have l: "live ?g 0"
    unfolding live_def query_fst by blast
  from l edge_symmetry[OF l] show ?thesis by blast
qed

section \<open>The module graph: replaceModule and updateModule\<close>






lemma count_list_set_add:
  "c \<notin> set xs \<Longrightarrow> count_list (set_add c xs) c = 1"
  by (simp add: set_add_def count_list_0_iff)

text \<open>
  Claim C6 (\<open>updateModule\<close>). In a graph built by the operations,
  \<open>setResolvedModule(A, d, B)\<close> installs a new connection \<open>c\<close> for \<open>d\<close>. After
  \<open>updateModule(d, C)\<close> with \<open>C \<noteq> B\<close>, \<open>c\<close> is not in \<open>B\<close>'s incoming set, it is
  exactly once in \<open>C\<close>'s incoming set, \<open>getModule(d)\<close> is \<open>C\<close>, and \<open>A\<close>'s outgoing
  set is what it was and holds \<open>c\<close>. \<open>updateModule(d, B)\<close> returns without an error
  and leaves the graph as it is.
\<close>

theorem updateModule_moves_incoming:
  "let g = run_operations ops new_ModuleGraph;
       c = next_connection g;
       g1 = setResolvedModule A d B g;
       g2 = snd (updateModule d C g1)
   in fst (getConnection d g1) = Obj c
      \<and> (C \<noteq> B \<longrightarrow>
            fst (updateModule d C g1) = Inr ()
            \<and> c \<notin> set (fst (getIncomingConnections B g2))
            \<and> count_list (fst (getIncomingConnections C g2)) c = 1
            \<and> fst (getModule d g2) = Inr (Obj C)
            \<and> fst (getOutgoingConnection A g2) = fst (getOutgoingConnection A g1)
            \<and> c \<in> set (fst (getOutgoingConnection A g1)))
      \<and> updateModule d B g1 = (Inr (), g1)"
proof -
  define g where "g = run_operations ops new_ModuleGraph"
  define c where "c = next_connection g"
  define g1 where "g1 = setResolvedModule A d B g"
  define g2 where "g2 = snd (updateModule d C g1)"
  have inv: "graph_inv g" unfolding g_def by (rule graph_inv_run)
  have fresh: "c \<notin> set (incomingConnections (the_mgm g m))" for m
    unfolding c_def by (rule fresh_not_in[OF inv])
  have conn1: "connection (the_mgd g1 d) = Obj c"
    by (simp add: g1_def c_def setResolvedModule_view)
  have mod1: "module (connections g1 c) = B"
    by (simp add: g1_def c_def setResolvedModule_view new_ModuleGraphConnection_def)
  have in1: "incomingConnections (the_mgm g1 x) =
     (if x = B then set_add c (incomingConnections (the_mgm g x)) else incomingConnections (the_mgm g x))" for x
    by (simp add: g1_def c_def setResolvedModule_sets)
  have out1: "c \<in> set (outgoingConnections (the_mgm g1 A))"
    by (simp add: g1_def c_def setResolvedModule_sets set_add_set)
  have noop: "updateModule d B g1 = (Inr (), g1)"
  proof -
    have "dependencyMap g1 d \<noteq> None"
      by (simp add: g1_def setResolvedModule_def split_def Let_def set_mgm_def set_mgd_def
          getModuleGraphModule_def split: option.splits)
    then obtain r where r: "dependencyMap g1 d = Some r" by blast
    then have "connection r = Obj c" using conn1 by (simp add: the_mgd_def)
    then show ?thesis using r mod1
      by (simp add: updateModule_def getModuleGraphDependency_def)
  qed
  have moved: "fst (updateModule d C g1) = Inr ()
            \<and> c \<notin> set (incomingConnections (the_mgm g2 B))
            \<and> count_list (incomingConnections (the_mgm g2 C)) c = 1
            \<and> fst (getModule d g2) = Inr (Obj C)
            \<and> outgoingConnections (the_mgm g2 A) = outgoingConnections (the_mgm g1 A)" if ne: "C \<noteq> B"
  proof -
    have ne': "module (connections g1 c) \<noteq> C" using ne mod1 by simp
    note U = updateModule_sets[OF conn1 ne', folded g2_def]
    have a: "fst (updateModule d C g1) = Inr ()"
      by (simp add: updateModule_view conn1)
    have b: "c \<notin> set (incomingConnections (the_mgm g2 B))"
      using ne by (simp add: U mod1 set_delete_set)
    have c': "count_list (incomingConnections (the_mgm g2 C)) c = 1"
      using ne fresh by (simp add: U in1 count_list_set_add)
    have d': "fst (getModule d g2) = Inr (Obj C)"
      by (simp add: query_fst g2_def updateModule_view conn1)
    from a b c' d' show ?thesis by (simp add: U)
  qed
  show ?thesis
    unfolding Let_def query_fst(1,2,3)
    using conn1 noop moved out1
    unfolding g_def c_def g1_def g2_def by blast
qed

theorem updateModule_moves_incoming_witness:
  "let g = run_operations [AddExtraReason 2 ''entry''] new_ModuleGraph;
       c = next_connection g;
       g1 = setResolvedModule 1 7 2 g;
       g2 = snd (updateModule 7 3 g1)
   in (3::nat) \<noteq> 2
      \<and> c = 1
      \<and> fst (getConnection 7 g1) = Obj c
      \<and> c \<notin> set (fst (getIncomingConnections 2 g2))
      \<and> count_list (fst (getIncomingConnections 3 g2)) c = 1
      \<and> fst (getModule 7 g2) = Inr (Obj 3)"
proof -
  have ne: "(3::nat) \<noteq> 2" by simp
  have c: "next_connection (run_operations [AddExtraReason 2 ''entry''] new_ModuleGraph) = 1"
    by (simp add: run_operations_def op_view new_view)
  from updateModule_moves_incoming[of "[AddExtraReason 2 ''entry'']" 1 7 2 3] ne c
  show ?thesis unfolding Let_def by simp
qed

section \<open>The module graph: defaults and errors\<close>

lemma apply_operation_connection:
  assumes "\<not> is_setResolvedModule_of d op"
  shows "connection (the_mgd (apply_operation op g) d) = connection (the_mgd g d)"
proof (cases op)
  case (SetResolvedModule om d' m)
  then show ?thesis using assms by (simp add: setResolvedModule_view)
next
  case (Query q)
  then show ?thesis by (simp add: run_query_snd)
qed (simp_all add: op_view)

lemma run_operations_connection:
  assumes "list_all (\<lambda>op. \<not> is_setResolvedModule_of d op) ops"
  shows "connection (the_mgd (run_operations ops g) d) = connection (the_mgd g d)"
  using assms unfolding run_operations_def
  by (induction ops arbitrary: g) (simp_all add: apply_operation_connection)

text \<open>
  Claim C7 (a dependency without a connection). Run any operations on the empty graph,
  none of them a \<open>setResolvedModule\<close> call for the dependency \<open>d\<close>. Then
  \<open>updateModule(d, m)\<close> and \<open>addExplanation(d, s)\<close> throw a \<open>TypeError\<close>, while
  \<open>getModule(d)\<close> and \<open>getOrigin(d)\<close> return null and \<open>getConnection(d)\<close> returns
  undefined, without an error.
\<close>

theorem no_connection_errors_and_defaults:
  assumes "list_all (\<lambda>op. \<not> is_setResolvedModule_of d op) ops"
  shows "fst (updateModule d m (run_operations ops new_ModuleGraph)) = Inl TypeError
       \<and> fst (addExplanation d s (run_operations ops new_ModuleGraph)) = Inl TypeError
       \<and> fst (getModule d (run_operations ops new_ModuleGraph)) = Inr Null
       \<and> fst (getOrigin d (run_operations ops new_ModuleGraph)) = Inr Null
       \<and> fst (getConnection d (run_operations ops new_ModuleGraph)) = Undefined"
proof -
  have "connection (the_mgd (run_operations ops new_ModuleGraph) d) = Undefined"
    by (simp add: run_operations_connection[OF assms] new_view new_ModuleGraphDependency_def)
  then show ?thesis
    by (simp add: query_fst updateModule_view addExplanation_view)
qed

theorem no_connection_errors_and_defaults_witness:
  "list_all (\<lambda>op. \<not> is_setResolvedModule_of 7 op)
     [SetResolvedModule 1 8 2, SetParents 7 (Obj 5) (Obj 1), Query (GetModule 7)]
   \<and> fst (updateModule 7 3
        (run_operations [SetResolvedModule 1 8 2, SetParents 7 (Obj 5) (Obj 1), Query (GetModule 7)]
           new_ModuleGraph)) = Inl TypeError
   \<and> fst (getConnection 7
        (run_operations [SetResolvedModule 1 8 2, SetParents 7 (Obj 5) (Obj 1), Query (GetModule 7)]
           new_ModuleGraph)) = Undefined"
proof -
  have h: "list_all (\<lambda>op. \<not> is_setResolvedModule_of 7 op)
     [SetResolvedModule 1 8 2, SetParents 7 (Obj 5) (Obj 1), Query (GetModule 7)]"
    by simp
  from h no_connection_errors_and_defaults[OF h, of 3] show ?thesis by blast
qed

lemma apply_operation_usedExports:
  assumes "\<not> is_setUsedExports_of m op"
  shows "usedExports (the_mgm (apply_operation op g) m) = usedExports (the_mgm g m)"
proof (cases op)
  case (SetUsedExports m' u)
  then show ?thesis using assms by (simp add: setUsedExports_view)
next
  case (Query q)
  then show ?thesis by (simp add: run_query_snd)
next
  case (ReplaceModule A D f)
  then show ?thesis by (cases "A = D") (simp_all add: replaceModule_same replaceModule_view)
next
  case (UpdateModule d m')
  then show ?thesis by (simp add: updateModule_view Let_def split: js.splits)
qed (simp_all add: op_view Let_def)

lemma run_operations_usedExports:
  assumes "list_all (\<lambda>op. \<not> is_setUsedExports_of m op) ops"
  shows "usedExports (the_mgm (run_operations ops g) m) = usedExports (the_mgm g m)"
  using assms unfolding run_operations_def
  by (induction ops arbitrary: g) (simp_all add: apply_operation_usedExports)

text \<open>
  Claim C9 (\<open>usedExports\<close>). After any operations on the empty graph, none of them a
  \<open>setUsedExports\<close> call for the module \<open>m\<close>, \<open>getUsedExports(m)\<close> is null. In any
  graph, \<open>getUsedExports(m)\<close> after \<open>setUsedExports(m, false)\<close> is \<open>false\<close>, which is
  neither the empty set of names nor \<open>true\<close> nor null; and after
  \<open>setUsedExports(m, u)\<close> it is \<open>u\<close>, for each of the four kinds of value.
\<close>

theorem usedExports_default_and_roundtrip:
  "(list_all (\<lambda>op. \<not> is_setUsedExports_of m op) ops
      \<longrightarrow> fst (getUsedExports m (run_operations ops new_ModuleGraph)) = UsedNull)
   \<and> fst (getUsedExports m (setUsedExports m UsedFalse g)) = UsedFalse
   \<and> UsedFalse \<noteq> UsedNames [] \<and> UsedFalse \<noteq> UsedTrue \<and> UsedFalse \<noteq> UsedNull
   \<and> (\<forall>u. fst (getUsedExports m (setUsedExports m u g)) = u)"
  by (simp add: query_fst run_operations_usedExports new_view new_ModuleGraphModule_def
      setUsedExports_view)

theorem usedExports_default_and_roundtrip_witness:
  "list_all (\<lambda>op. \<not> is_setUsedExports_of 1 op)
     [SetUsedExports 2 UsedTrue, SetResolvedModule 1 7 2, SetIssuer 1 (Obj 2)]
   \<and> fst (getUsedExports 1
        (run_operations [SetUsedExports 2 UsedTrue, SetResolvedModule 1 7 2, SetIssuer 1 (Obj 2)]
           new_ModuleGraph)) = UsedNull
   \<and> fst (getUsedExports 1 (setUsedExports 1 UsedFalse new_ModuleGraph)) = UsedFalse"
proof -
  have h: "list_all (\<lambda>op. \<not> is_setUsedExports_of 1 op)
     [SetUsedExports 2 UsedTrue, SetResolvedModule 1 7 2, SetIssuer 1 (Obj 2)]"
    by simp
  from h usedExports_default_and_roundtrip[of 1
      "[SetUsedExports 2 UsedTrue, SetResolvedModule 1 7 2, SetIssuer 1 (Obj 2)]" new_ModuleGraph]
  show ?thesis by blast
qed

section \<open>The module graph: queries\<close>

lemma query_inserts_record:
  "moduleMap g m = None \<Longrightarrow>
     moduleMap (snd (run_query (GetIssuer m) g)) m = Some new_ModuleGraphModule"
  by (simp add: getIssuer_def getModuleGraphModule_def)

text \<open>
  Claim C10 (queries are observationally pure). A query may insert a fresh record for
  a key that has none (\<open>query_inserts_record\<close>), but the answer of any query in the
  graph that any other query has left is its answer in the graph before.
\<close>

theorem queries_observationally_pure:
  "fst (run_query q2 (snd (run_query q1 g))) = fst (run_query q2 g)"
  by (simp add: run_query_fst run_query_snd)

theorem queries_observationally_pure_witness:
  "fst (run_query (GetIssuer 1) (snd (run_query (GetIssuer 1) new_ModuleGraph))) = AModule Null
   \<and> moduleMap (snd (run_query (GetIssuer 1) new_ModuleGraph)) 1 \<noteq> moduleMap new_ModuleGraph 1"
proof -
  have a: "fst (run_query (GetIssuer 1) new_ModuleGraph) = AModule Null"
    by (simp add: getIssuer_def getModuleGraphModule_def new_ModuleGraph_def new_ModuleGraphModule_def)
  have b: "moduleMap (snd (run_query (GetIssuer 1) new_ModuleGraph)) 1 \<noteq> moduleMap new_ModuleGraph 1"
    by (simp add: getIssuer_def getModuleGraphModule_def new_ModuleGraph_def)
  from a b queries_observationally_pure[of "GetIssuer 1" "GetIssuer 1" new_ModuleGraph]
  show ?thesis by simp
qed

section \<open>Chunks: getAllAsyncChunks\<close>

lemma set_fold_set_add_subset:
  "set zs \<subseteq> S \<Longrightarrow> set ys \<subseteq> S \<Longrightarrow> set (fold set_add zs ys) \<subseteq> S"
  by (simp add: set_fold_set_add)

lemma length_fold_set_add: "length ys \<le> length (fold set_add zs ys)"
proof (induction zs arbitrary: ys)
  case Nil
  then show ?case by simp
next
  case (Cons z zs)
  have "length ys \<le> length (set_add z ys)" by (simp add: set_add_def)
  also have "\<dots> \<le> length (fold set_add zs (set_add z ys))" by (rule Cons.IH)
  finally show ?case by simp
qed

lemma distinct_fold_collect:
  "distinct acc \<Longrightarrow>
   distinct (fold (\<lambda>chunk acc'. if chunk \<in> set initialChunks then acc' else set_add chunk acc') cs acc)"
  by (induction cs arbitrary: acc) (simp_all add: distinct_set_add)

lemma visit_queue_terminates:
  assumes "finite S" "children_closed h S"
  shows "set queue \<subseteq> S \<Longrightarrow> distinct queue \<Longrightarrow> i \<le> length queue \<Longrightarrow> distinct acc \<Longrightarrow>
         \<exists>q r. visit_queue h initialChunks queue i acc = Some (q, r)
               \<and> distinct q \<and> set q \<subseteq> S \<and> distinct r"
proof (induction "card S - i" arbitrary: queue i acc rule: less_induct)
  case less
  show ?case
  proof (cases "i < length queue")
    case False
    then show ?thesis using less.prems
      by (subst visit_queue.simps) simp
  next
    case True
    let ?queue' = "fold set_add (children (group_of h (queue ! i))) queue"
    let ?acc' = "fold (\<lambda>chunk acc'. if chunk \<in> set initialChunks then acc' else set_add chunk acc')
             (chunks (group_of h (queue ! i))) acc"
    have mem: "queue ! i \<in> S" using True less.prems(1) by (meson nth_mem subsetD)
    then have ch: "set (children (group_of h (queue ! i))) \<subseteq> S"
      using assms(2) by (simp add: children_closed_def)
    have sub: "set ?queue' \<subseteq> S" using ch less.prems(1) by (rule set_fold_set_add_subset)
    have dist: "distinct ?queue'" using less.prems(2) by (rule distinct_fold_set_add)
    have len: "Suc i \<le> length ?queue'"
      using True length_fold_set_add[of queue "children (group_of h (queue ! i))"] by simp
    have "length queue \<le> card S"
      using less.prems(1,2) assms(1) by (metis card_mono distinct_card)
    then have dec: "card S - Suc i < card S - i" using True by simp
    have dacc: "distinct ?acc'" using less.prems(4) by (rule distinct_fold_collect)
    from less.hyps[OF dec sub dist len dacc]
    obtain q r where "visit_queue h initialChunks ?queue' (Suc i) ?acc' = Some (q, r)"
      "distinct q" "set q \<subseteq> S" "distinct r" by blast
    then show ?thesis using True
      by (subst visit_queue.simps) simp
  qed
qed

lemma initial_queue_props:
  assumes "children_closed h S" "set (groups (chunk_of h this)) \<subseteq> S"
  shows "set (initial_queue h this) \<subseteq> S" "distinct (initial_queue h this)"
proof -
  have "set ys \<subseteq> S \<Longrightarrow> distinct ys \<Longrightarrow> set gs \<subseteq> S \<Longrightarrow>
        set (fold (\<lambda>chunkGroup queue. fold set_add (children (group_of h chunkGroup)) queue) gs ys) \<subseteq> S
        \<and> distinct (fold (\<lambda>chunkGroup queue. fold set_add (children (group_of h chunkGroup)) queue) gs ys)"
    for gs ys
  proof (induction gs arbitrary: ys)
    case Nil
    then show ?case by simp
  next
    case (Cons g gs)
    have "set (children (group_of h g)) \<subseteq> S"
      using Cons.prems(3) assms(1) by (simp add: children_closed_def)
    then have "set (fold set_add (children (group_of h g)) ys) \<subseteq> S"
      using Cons.prems(1) by (rule set_fold_set_add_subset)
    moreover have "distinct (fold set_add (children (group_of h g)) ys)"
      using Cons.prems(2) by (rule distinct_fold_set_add)
    ultimately show ?case using Cons.IH Cons.prems(3) by simp
  qed
  from this[of "[]" "groups (chunk_of h this)"] assms(2)
  show "set (initial_queue h this) \<subseteq> S" "distinct (initial_queue h this)"
    by (simp_all add: initial_queue_def)
qed

text \<open>
  Claim C8 (termination of \<open>getAllAsyncChunks\<close>). In a finite topology, that is when
  the groups of the chunk lie in a finite set of groups that contains the child groups of
  its members, \<open>getAllAsyncChunks\<close> returns, whether or not the child relation has
  cycles. The queue that the loop has walked holds no group twice, so each group is
  visited at most once, and the result holds no chunk twice.
\<close>

theorem getAllAsyncChunks_terminates:
  assumes "finite S" and "children_closed h S" and "set (groups (chunk_of h this)) \<subseteq> S"
  shows "\<exists>q r. visit_queue h
                 (intersect (map (\<lambda>g. new_Set (chunks (group_of h g))) (groups (chunk_of h this))))
                 (initial_queue h this) 0 [] = Some (q, r)
              \<and> distinct q \<and> set q \<subseteq> S
              \<and> getAllAsyncChunks h this = Some r \<and> distinct r"
proof -
  note Q = initial_queue_props[OF assms(2,3)]
  let ?init = "intersect (map (\<lambda>g. new_Set (chunks (group_of h g))) (groups (chunk_of h this)))"
  from visit_queue_terminates[OF assms(1,2) Q(1) Q(2), of 0 "[]" ?init]
  obtain q r where v: "visit_queue h ?init (initial_queue h this) 0 [] = Some (q, r)"
    and p: "distinct q" "set q \<subseteq> S" "distinct r" by auto
  have "getAllAsyncChunks h this = Some r"
    by (simp add: getAllAsyncChunks_def v)
  with v p show ?thesis by blast
qed

text \<open>
  Claim C2 (the example of \<open>getAllAsyncChunks\<close>). The chunk \<open>X\<close> is in the groups
  \<open>G1\<close> and \<open>G2\<close> and in no other; both have the chunks \<open>[X, Y]\<close>; \<open>G1\<close> has the one
  child group \<open>G3\<close> with the chunks \<open>[Y, Z]\<close>; \<open>G2\<close> and \<open>G3\<close> have no child group;
  \<open>Z\<close> is neither \<open>X\<close> nor \<open>Y\<close>. Then \<open>X.getAllAsyncChunks()\<close> returns the set that
  holds \<open>Z\<close> only: \<open>Y\<close> is in the intersection of the chunk sets of \<open>G1\<close> and \<open>G2\<close>.
\<close>

theorem getAllAsyncChunks_example:
  assumes "groups (chunk_of h X) = [G1, G2]"
    and "chunks (group_of h G1) = [X, Y]" and "chunks (group_of h G2) = [X, Y]"
    and "children (group_of h G1) = [G3]" and "children (group_of h G2) = []"
    and "chunks (group_of h G3) = [Y, Z]" and "children (group_of h G3) = []"
    and "Z \<noteq> X" and "Z \<noteq> Y"
  shows "getAllAsyncChunks h X = Some [Z]"
proof -
  define I where "I = intersect (map (\<lambda>g. new_Set (chunks (group_of h g))) (groups (chunk_of h X)))"
  have init: "set I = {X, Y}"
    by (auto simp: I_def assms intersect_def new_Set_def set_add_def)
  have q: "initial_queue h X = [G3]"
    by (simp add: initial_queue_def assms set_add_def)
  have v1: "visit_queue h I [G3] (Suc 0) [Z] = Some ([G3], [Z])"
    by (subst visit_queue.simps) simp
  have v: "visit_queue h I [G3] 0 [] = Some ([G3], [Z])"
    by (subst visit_queue.simps) (simp add: init assms set_add_def v1)
  show ?thesis
    unfolding getAllAsyncChunks_def Let_def q I_def[symmetric] by (simp add: v)
qed

lemma heap_simps:
  "chunk_of (put_chunk c v h) = (chunk_of h)(c := v)"
  "group_of (put_chunk c v h) = group_of h"
  "chunk_of (put_group g w h) = chunk_of h"
  "group_of (put_group g w h) = (group_of h)(g := w)"
  "chunk_of empty_heap = (\<lambda>_. \<lparr> id_chunk = IdNull, groups = [] \<rparr>)"
  "group_of empty_heap = (\<lambda>_. \<lparr> chunks = [], children = [], options = [] \<rparr>)"
  by (simp_all add: put_chunk_def put_group_def empty_heap_def)

theorem getAllAsyncChunks_example_witness:
  "groups (chunk_of async_example_heap 0) = [1, 2]
   \<and> chunks (group_of async_example_heap 1) = [0, 1]
   \<and> chunks (group_of async_example_heap 2) = [0, 1]
   \<and> children (group_of async_example_heap 1) = [3]
   \<and> children (group_of async_example_heap 2) = []
   \<and> chunks (group_of async_example_heap 3) = [1, 2]
   \<and> children (group_of async_example_heap 3) = []
   \<and> (2::nat) \<noteq> 0 \<and> (2::nat) \<noteq> 1
   \<and> getAllAsyncChunks async_example_heap 0 = Some [2]"
proof -
  have h: "groups (chunk_of async_example_heap 0) = [1, 2]"
    "chunks (group_of async_example_heap 1) = [0, 1]"
    "chunks (group_of async_example_heap 2) = [0, 1]"
    "children (group_of async_example_heap 1) = [3]"
    "children (group_of async_example_heap 2) = []"
    "chunks (group_of async_example_heap 3) = [1, 2]"
    "children (group_of async_example_heap 3) = []"
    "(2::nat) \<noteq> 0" "(2::nat) \<noteq> 1"
    by (simp_all add: async_example_heap_def heap_simps)
  from h getAllAsyncChunks_example[OF h] show ?thesis by simp
qed

lemma cyclic_heap_result: "getAllAsyncChunks cyclic_heap 0 = Some [1]"
proof -
  have g: "groups (chunk_of cyclic_heap 0) = [Suc 0]"
    "chunks (group_of cyclic_heap (Suc 0)) = [0]" "children (group_of cyclic_heap (Suc 0)) = [2]"
    "chunks (group_of cyclic_heap 2) = [Suc 0]" "children (group_of cyclic_heap 2) = [Suc 0]"
    by (simp_all add: cyclic_heap_def heap_simps)
  have v2: "visit_queue cyclic_heap [0] [2, Suc 0] (Suc (Suc 0)) [Suc 0] = Some ([2, Suc 0], [Suc 0])"
    by (subst visit_queue.simps) simp
  have v1: "visit_queue cyclic_heap [0] [2, Suc 0] (Suc 0) [Suc 0] = Some ([2, Suc 0], [Suc 0])"
    by (subst visit_queue.simps) (simp add: g set_add_def v2)
  have v0: "visit_queue cyclic_heap [0] [2] 0 [] = Some ([2, Suc 0], [Suc 0])"
    by (subst visit_queue.simps) (simp add: g set_add_def v1)
  show ?thesis
    by (simp add: getAllAsyncChunks_def initial_queue_def g intersect_def new_Set_def set_add_def v0)
qed

theorem getAllAsyncChunks_terminates_witness:
  "finite {1, 2 :: group_ref} \<and> children_closed cyclic_heap {1, 2}
   \<and> set (groups (chunk_of cyclic_heap 0)) \<subseteq> {1, 2}
   \<and> 2 \<in> set (children (group_of cyclic_heap 1))
   \<and> 1 \<in> set (children (group_of cyclic_heap 2))
   \<and> (\<exists>r. getAllAsyncChunks cyclic_heap 0 = Some r \<and> distinct r)
   \<and> getAllAsyncChunks cyclic_heap 0 = Some [1]"
proof -
  have f: "finite {1, 2 :: group_ref}" by simp
  have c: "children_closed cyclic_heap {1, 2}"
    by (simp add: children_closed_def cyclic_heap_def heap_simps)
  have s: "set (groups (chunk_of cyclic_heap 0)) \<subseteq> {1, 2}"
    by (simp add: cyclic_heap_def heap_simps)
  have cyc: "2 \<in> set (children (group_of cyclic_heap 1))" "1 \<in> set (children (group_of cyclic_heap 2))"
    by (simp_all add: cyclic_heap_def heap_simps)
  from getAllAsyncChunks_terminates[OF f c s] f c s cyc cyclic_heap_result show ?thesis by blast
qed

section \<open>Chunks: disconnectFromGroups\<close>

lemma fold_removeChunk:
  "chunk_of (fold (\<lambda>chunkGroup h'. removeChunk chunkGroup this h') gs h) = chunk_of h"
  "group_of (fold (\<lambda>chunkGroup h'. removeChunk chunkGroup this h') gs h) g =
     (if g \<in> set gs then (group_of h g)\<lparr>chunks := removeAll this (chunks (group_of h g))\<rparr>
      else group_of h g)"
  by (induction gs arbitrary: h) (auto simp: removeChunk_def)

text \<open>
  Claim C3 (\<open>disconnectFromGroups\<close>), as amended. After \<open>disconnectFromGroups()\<close> the
  chunk is in the chunk list of none of the groups it belonged to; the chunk lists of the
  other groups are unchanged; and the chunk's own set of groups is unchanged, so
  \<open>getNumberOfGroups()\<close> returns what it returned before.
\<close>

theorem disconnectFromGroups_group_side:
  "(\<forall>g \<in> set (groups (chunk_of h this)).
       this \<notin> set (chunks (group_of (disconnectFromGroups this h) g)))
   \<and> (\<forall>g. g \<notin> set (groups (chunk_of h this)) \<longrightarrow>
         group_of (disconnectFromGroups this h) g = group_of h g)
   \<and> groups (chunk_of (disconnectFromGroups this h) this) = groups (chunk_of h this)
   \<and> getNumberOfGroups (disconnectFromGroups this h) this = getNumberOfGroups h this"
  by (simp add: disconnectFromGroups_def fold_removeChunk getNumberOfGroups_def)

theorem disconnectFromGroups_group_side_witness:
  "1 \<in> set (groups (chunk_of single_group_heap 0))
   \<and> 0 \<in> set (chunks (group_of single_group_heap 1))
   \<and> 0 \<notin> set (chunks (group_of (disconnectFromGroups 0 single_group_heap) 1))
   \<and> 2 \<notin> set (groups (chunk_of single_group_heap 0))
   \<and> group_of (disconnectFromGroups 0 single_group_heap) 2 = group_of single_group_heap 2
   \<and> getNumberOfGroups (disconnectFromGroups 0 single_group_heap) 0 = 1"
proof -
  have a: "1 \<in> set (groups (chunk_of single_group_heap 0))"
    "0 \<in> set (chunks (group_of single_group_heap 1))"
    "2 \<notin> set (groups (chunk_of single_group_heap 0))"
    "getNumberOfGroups single_group_heap 0 = 1"
    by (simp_all add: single_group_heap_def heap_simps getNumberOfGroups_def)
  from a disconnectFromGroups_group_side[of single_group_heap 0] show ?thesis by auto
qed

text \<open>
  The claim as stated fails: the chunk of \<open>single_group_heap\<close> is in one group, and
  \<open>getNumberOfGroups()\<close> is 1 after \<open>disconnectFromGroups()\<close>, not 0.
\<close>

theorem disconnectFromGroups_counterexample:
  "getNumberOfGroups single_group_heap 0 = 1
   \<and> getNumberOfGroups (disconnectFromGroups 0 single_group_heap) 0 \<noteq> 0"
  by (simp add: getNumberOfGroups_def disconnectFromGroups_def removeChunk_def
      single_group_heap_def heap_simps)

section \<open>Chunks: getChildIdsByOrders\<close>













lemma set_new_Set: "set (new_Set xs) = set xs"
  by (simp add: new_Set_def set_fold_set_add)















end
